theory Spec2Isabelle
  imports Complex_Main "HOL-Library.Multiset" "HOL-Library.Log_Nat"
begin

section \<open>JavaScript strings and numbers\<close>

text \<open>
  A \<^typ>\<open>string\<close> stands for a JavaScript string whose UTF-16 code units are all
  below 256; a \<^typ>\<open>char\<close> is one such code unit. The built-ins are given on that
  range: \<^verbatim>\<open>toLowerCase\<close> maps A-Z and the upper-case letters of the Latin-1 block,
  \<^verbatim>\<open>\s\<close> and \<^verbatim>\<open>trim\<close> see TAB, LF, VT, FF, CR, SPACE and NBSP.

  A Number is an IEEE 754 double: \<open>NaN\<close>, plus or minus infinity, or a finite
  value, which is a rational number. The sign of zero is not kept: nothing in this
  program tells \<^verbatim>\<open>-0\<close> from \<^verbatim>\<open>+0\<close> (no division by a computed zero, no
  \<^verbatim>\<open>Object.is\<close>). A decimal literal of the source denotes the nearest double:
  \<^verbatim>\<open>0.8\<close> is \<open>fl (8 / 10)\<close>.

  Lengths, edit distances, counters, clock readings and the capacities and
  durations of a cache configuration are integers below \<open>2^53\<close>, which a double
  holds exactly and adds, subtracts and compares exactly: they are kept as
  \<^typ>\<open>nat\<close> or \<^typ>\<open>int\<close>, and enter the arithmetic of doubles as
  \<open>Finite (of_nat n)\<close> or \<open>Finite (of_int n)\<close>.
\<close>

datatype js_number = NaN | PosInf | NegInf | Finite rat

definition toLowerCase_char :: "char \<Rightarrow> char" where
  "toLowerCase_char c =
     (let n = (of_char c :: nat)
      in if (65 \<le> n \<and> n \<le> 90) \<or> (192 \<le> n \<and> n \<le> 214) \<or> (216 \<le> n \<and> n \<le> 222)
         then char_of (n + 32) else c)"

definition toLowerCase :: "string \<Rightarrow> string" where
  "toLowerCase s = map toLowerCase_char s"

definition isWhiteSpace :: "char \<Rightarrow> bool" where
  "isWhiteSpace c =
     (let n = (of_char c :: nat) in (9 \<le> n \<and> n \<le> 13) \<or> n = 32 \<or> n = 160)"

definition trim :: "string \<Rightarrow> string" where
  "trim s = rev (dropWhile isWhiteSpace (rev (dropWhile isWhiteSpace s)))"

text \<open>\<^verbatim>\<open>s.replace(/\s+/g, r)\<close>: every maximal run of white space becomes \<open>r\<close>.\<close>

function replace_ws_runs :: "string \<Rightarrow> string \<Rightarrow> string" where
  "replace_ws_runs r [] = []"
| "replace_ws_runs r (c # cs) =
     (if isWhiteSpace c then r @ replace_ws_runs r (dropWhile isWhiteSpace cs)
      else c # replace_ws_runs r cs)"
  by pat_completeness auto
termination
  by (relation "measure (\<lambda>(r, s). length s)") (auto simp: le_imp_less_Suc length_dropWhile_le)

text \<open>
  \<open>ilog2 x\<close> is the integer part of the binary logarithm of a positive rational
  \<open>x\<close>: the difference of the bit lengths of numerator and denominator, or one less.
\<close>

definition ilog2 :: "rat \<Rightarrow> int" where
  "ilog2 x =
     (let (p, q) = quotient_of x;
          d = bitlen p - bitlen q
      in if 2 powi d \<le> x then d else d - 1)"

text \<open>The nearest integer, a tie going to the even one.\<close>

definition round_half_even :: "rat \<Rightarrow> int" where
  "round_half_even q =
     (let f = \<lfloor>q\<rfloor>; r = q - rat_of_int f
      in if r < 1 / 2 then f
         else if 1 / 2 < r then f + 1
         else if even f then f else f + 1)"

text \<open>
  \<open>fl x\<close> is the double that an operation with the exact result \<open>x\<close> returns:
  \<open>x\<close> rounded to the nearest multiple \<open>m * 2^e\<close> of the unit in the last place,
  a tie to the even \<open>m\<close>. The significand has 53 bits, so \<open>e\<close> is the logarithm of
  \<open>\<bar>x\<bar>\<close> less 52, and not below -1074 (the subnormal numbers). A rounded value of
  \<open>2^1024\<close> or more is an overflow, to the infinity of the sign of \<open>x\<close>.
\<close>

definition fl :: "rat \<Rightarrow> js_number" where
  "fl x =
     (if x = 0 then Finite 0
      else
        let a = \<bar>x\<bar>;
            e = max (ilog2 a - 52) (- 1074);
            m = round_half_even (a / 2 powi e);
            y = rat_of_int m * 2 powi e
        in if 1024 \<le> ilog2 y then (if 0 < x then PosInf else NegInf)
           else Finite (if 0 < x then y else - y))"

text \<open>
  The infinity with the sign of \<open>s\<close>, and \<open>NaN\<close> for \<open>s = 0\<close>: the product of an
  infinity with a finite number of that sign.
\<close>

definition inf_of :: "rat \<Rightarrow> js_number" where
  "inf_of s = (if s = 0 then NaN else if 0 < s then PosInf else NegInf)"

text \<open>The operators \<^verbatim>\<open>*\<close>, \<^verbatim>\<open>/\<close> and \<^verbatim>\<open>-\<close>.\<close>

fun js_mult :: "js_number \<Rightarrow> js_number \<Rightarrow> js_number" where
  "js_mult (Finite x) (Finite y) = fl (x * y)"
| "js_mult (Finite x) PosInf = inf_of x"
| "js_mult (Finite x) NegInf = inf_of (- x)"
| "js_mult PosInf (Finite y) = inf_of y"
| "js_mult NegInf (Finite y) = inf_of (- y)"
| "js_mult PosInf PosInf = PosInf"
| "js_mult PosInf NegInf = NegInf"
| "js_mult NegInf PosInf = NegInf"
| "js_mult NegInf NegInf = PosInf"
| "js_mult NaN y = NaN"
| "js_mult x NaN = NaN"

text \<open>A zero divisor is taken as \<^verbatim>\<open>+0\<close>.\<close>

fun js_div :: "js_number \<Rightarrow> js_number \<Rightarrow> js_number" where
  "js_div (Finite x) (Finite y) = (if y = 0 then inf_of x else fl (x / y))"
| "js_div (Finite x) PosInf = Finite 0"
| "js_div (Finite x) NegInf = Finite 0"
| "js_div PosInf (Finite y) = (if 0 \<le> y then PosInf else NegInf)"
| "js_div NegInf (Finite y) = (if 0 \<le> y then NegInf else PosInf)"
| "js_div PosInf PosInf = NaN"
| "js_div PosInf NegInf = NaN"
| "js_div NegInf PosInf = NaN"
| "js_div NegInf NegInf = NaN"
| "js_div NaN y = NaN"
| "js_div x NaN = NaN"

fun js_sub :: "js_number \<Rightarrow> js_number \<Rightarrow> js_number" where
  "js_sub (Finite x) (Finite y) = fl (x - y)"
| "js_sub (Finite x) PosInf = NegInf"
| "js_sub (Finite x) NegInf = PosInf"
| "js_sub PosInf (Finite y) = PosInf"
| "js_sub NegInf (Finite y) = NegInf"
| "js_sub PosInf NegInf = PosInf"
| "js_sub NegInf PosInf = NegInf"
| "js_sub PosInf PosInf = NaN"
| "js_sub NegInf NegInf = NaN"
| "js_sub NaN y = NaN"
| "js_sub x NaN = NaN"

text \<open>
  The comparisons \<^verbatim>\<open><\<close> and \<^verbatim>\<open><=\<close>, false when an operand is \<open>NaN\<close>;
  \<^verbatim>\<open>a > b\<close> is \<open>js_less b a\<close> and \<^verbatim>\<open>a >= b\<close> is \<open>js_le b a\<close>.
\<close>

fun js_less :: "js_number \<Rightarrow> js_number \<Rightarrow> bool" where
  "js_less (Finite x) (Finite y) = (x < y)"
| "js_less (Finite x) PosInf = True"
| "js_less NegInf (Finite y) = True"
| "js_less NegInf PosInf = True"
| "js_less x y = False"

fun js_le :: "js_number \<Rightarrow> js_number \<Rightarrow> bool" where
  "js_le (Finite x) (Finite y) = (x \<le> y)"
| "js_le (Finite x) PosInf = True"
| "js_le NegInf (Finite y) = True"
| "js_le NegInf PosInf = True"
| "js_le PosInf PosInf = True"
| "js_le NegInf NegInf = True"
| "js_le x y = False"

text \<open>
  \<^verbatim>\<open>Math.round\<close>: the nearest integer, a half rounded towards plus infinity;
  \<open>NaN\<close> and the infinities are returned as they are. The result is exact: the
  nearest integer of a double is a double.
\<close>

fun Math_round :: "js_number \<Rightarrow> js_number" where
  "Math_round (Finite x) = Finite (rat_of_int \<lfloor>x + 1 / 2\<rfloor>)"
| "Math_round x = x"

text \<open>
  \<^verbatim>\<open>Math.floor\<close>, and the integer that a Number with a finite integral value
  holds (0 for any other Number).
\<close>

fun Math_floor :: "js_number \<Rightarrow> js_number" where
  "Math_floor (Finite x) = Finite (rat_of_int \<lfloor>x\<rfloor>)"
| "Math_floor x = x"

definition integer_of :: "js_number \<Rightarrow> int" where
  "integer_of x = (case x of Finite r \<Rightarrow> \<lfloor>r\<rfloor> | _ \<Rightarrow> 0)"

text \<open>\<^verbatim>\<open>Math.max\<close> and \<^verbatim>\<open>Math.min\<close> of two arguments: \<open>NaN\<close> if either is.\<close>

definition Math_max :: "js_number \<Rightarrow> js_number \<Rightarrow> js_number" where
  "Math_max x y = (if x = NaN \<or> y = NaN then NaN else if js_less x y then y else x)"

definition Math_min :: "js_number \<Rightarrow> js_number \<Rightarrow> js_number" where
  "Math_min x y = (if x = NaN \<or> y = NaN then NaN else if js_less y x then y else x)"

text \<open>
  \<^verbatim>\<open>xs.slice(0, n)\<close>. The bound goes through \<^verbatim>\<open>ToIntegerOrInfinity\<close>:
  \<open>NaN\<close> is 0, a fraction is cut towards zero; a negative bound counts from the end
  of the array.
\<close>

definition slice0 :: "js_number \<Rightarrow> 'a list \<Rightarrow> 'a list" where
  "slice0 n xs =
     (case n of
        NaN \<Rightarrow> []
      | PosInf \<Rightarrow> xs
      | NegInf \<Rightarrow> []
      | Finite x \<Rightarrow>
          let relativeEnd = (if x < 0 then \<lceil>x\<rceil> else \<lfloor>x\<rfloor>)
          in if relativeEnd < 0 then take (nat (int (length xs) + relativeEnd)) xs
             else take (nat relativeEnd) xs)"

text \<open>
  \<^verbatim>\<open>xs.sort(comparefn)\<close>. The sort is stable, \<open>x\<close> goes behind \<open>y\<close> when
  \<^verbatim>\<open>comparefn(x, y) > 0\<close>, and a comparator value \<open>NaN\<close> counts as 0. With a
  consistent comparator that fixes the result, whatever the algorithm: here each
  element is inserted into the sorted rest of the array, in front of the first
  element that it need not follow.
\<close>

fun insert_by :: "('a \<Rightarrow> 'a \<Rightarrow> js_number) \<Rightarrow> 'a \<Rightarrow> 'a list \<Rightarrow> 'a list" where
  "insert_by comparefn x [] = [x]"
| "insert_by comparefn x (y # ys) =
     (if js_less (Finite 0) (comparefn x y) then y # insert_by comparefn x ys else x # y # ys)"

definition Array_sort :: "('a \<Rightarrow> 'a \<Rightarrow> js_number) \<Rightarrow> 'a list \<Rightarrow> 'a list" where
  "Array_sort comparefn xs = foldr (insert_by comparefn) xs []"

section \<open>matchers/levenshtein.ts\<close>

text \<open>
  \<^verbatim>\<open>levenshtein.get\<close> comes from the package fast-levenshtein: the edit distance with
  unit-cost insertion, deletion and substitution, given here by its recurrence.
\<close>

fun levenshtein_get :: "string \<Rightarrow> string \<Rightarrow> nat" where
  "levenshtein_get [] ys = length ys"
| "levenshtein_get (x # xs) [] = Suc (length xs)"
| "levenshtein_get (x # xs) (y # ys) =
     min (min (levenshtein_get xs (y # ys) + 1) (levenshtein_get (x # xs) ys + 1))
         (levenshtein_get xs ys + (if x = y then 0 else 1))"

text \<open>The alternation \<^verbatim>\<open>(the|a|an)\<close>, in the order the regular expression tries it.\<close>

definition articles_alt :: "string list" where
  "articles_alt = [''the'', ''a'', ''an'']"

text \<open>
  \<open>match_ci lit s\<close>: the literal \<open>lit\<close> (lower case) matches a prefix of \<open>s\<close> under the
  flag \<^verbatim>\<open>i\<close>; the result is what follows the match.
\<close>

definition match_ci :: "string \<Rightarrow> string \<Rightarrow> string option" where
  "match_ci lit s =
     (if length lit \<le> length s \<and> toLowerCase (take (length lit) s) = lit
      then Some (drop (length lit) s) else None)"

text \<open>\<^verbatim>\<open>\s+\<close> at the head of \<open>s\<close>, greedy; the result is what follows the run.\<close>

definition match_ws_plus :: "string \<Rightarrow> string option" where
  "match_ws_plus s =
     (case s of [] \<Rightarrow> None
      | c # cs \<Rightarrow> if isWhiteSpace c then Some (dropWhile isWhiteSpace cs) else None)"

text \<open>
  The first alternative that matches at the head of \<open>s\<close> and is followed by white
  space; the result is what follows that white space.
\<close>

fun match_alt_ws :: "string list \<Rightarrow> string \<Rightarrow> string option" where
  "match_alt_ws [] s = None"
| "match_alt_ws (a # as) s =
     (case match_ci a s of
        None \<Rightarrow> match_alt_ws as s
      | Some rest \<Rightarrow>
          (case match_ws_plus rest of
             None \<Rightarrow> match_alt_ws as s
           | Some rest' \<Rightarrow> Some rest'))"

text \<open>\<^verbatim>\<open>.replace(/^(the|a|an)\s+/i, '')\<close>\<close>

definition strip_leading_article :: "string \<Rightarrow> string" where
  "strip_leading_article s = (case match_alt_ws articles_alt s of None \<Rightarrow> s | Some rest \<Rightarrow> rest)"

text \<open>
  \<^verbatim>\<open>.replace(/\s+(the|a|an)$/i, '')\<close>: the match ends at the end of the string and
  starts at the first white space of the run before the article, so on the reversed
  string it is the reversed article followed by that run.
\<close>

definition strip_trailing_article :: "string \<Rightarrow> string" where
  "strip_trailing_article s =
     (case match_alt_ws (map rev articles_alt) (rev s) of None \<Rightarrow> s | Some rest \<Rightarrow> rev rest)"

text \<open>The class \<^verbatim>\<open>[.,;:!?'"()-]\<close>.\<close>

definition punctuation :: "char list" where
  "punctuation = [CHR ''.'', CHR '','', CHR '';'', CHR '':'', CHR ''!'', CHR ''?'',
                  CHR 0x27, CHR 0x22, CHR ''('', CHR '')'', CHR ''-'']"

definition normalizeString :: "string \<Rightarrow> string" where
  "normalizeString str =
     trim (strip_trailing_article (strip_leading_article
       (filter (\<lambda>c. c \<notin> set punctuation)
          (replace_ws_runs '' '' (trim (toLowerCase str))))))"

definition isExactMatch :: "string \<Rightarrow> string \<Rightarrow> bool" where
  "isExactMatch str1 str2 =
     (if str1 = [] \<or> str2 = [] then False
      else normalizeString str1 = normalizeString str2)"

text \<open>
  In \<^verbatim>\<open>((maxLength - distance) / maxLength) * 100\<close> the difference is one of
  integers and exact; the quotient and the product are rounded.
\<close>

definition calculateSimilarity :: "string \<Rightarrow> string \<Rightarrow> js_number" where
  "calculateSimilarity str1 str2 =
     (if str1 = [] \<or> str2 = [] then Finite 0
      else if str1 = str2 then Finite 100
      else
        let normalizedStr1 = normalizeString str1;
            normalizedStr2 = normalizeString str2
        in if normalizedStr1 = normalizedStr2 then Finite 100
           else
             let distance = levenshtein_get normalizedStr1 normalizedStr2;
                 maxLength = max (length normalizedStr1) (length normalizedStr2);
                 similarity =
                   js_mult
                     (js_div (Finite (rat_of_nat maxLength - rat_of_nat distance))
                        (Finite (rat_of_nat maxLength)))
                     (Finite 100)
             in Math_max (Finite 0) (Math_round similarity))"

section \<open>matchers/text-normalizer.ts\<close>

record NormalizationConfig =
  removeAccents_flag :: bool
  lowercase_flag :: bool
  removePunctuation_flag :: bool
  normalizeWhitespace_flag :: bool
  removeStopWords_flag :: bool
  removeArticles_flag :: bool
  convertUnicode_flag :: bool

definition STOP_WORDS :: "string list" where
  "STOP_WORDS =
     [''and'', ''or'', ''but'', ''in'', ''on'', ''at'', ''to'', ''for'', ''of'', ''with'', ''by'',
      ''from'', ''up'', ''about'', ''into'', ''through'', ''during'', ''before'', ''after'',
      ''above'', ''below'', ''between'', ''among'', ''under'', ''over'', ''against'', ''within'',
      ''without'']"

definition ARTICLES :: "string list" where
  "ARTICLES = [''a'', ''an'', ''the'']"

text \<open>
  \<^verbatim>\<open>UNICODE_MAP\<close>, in the order of the source. Its other 64 keys are code units
  above 255; they match no string of this model, with or without the flag \<^verbatim>\<open>i\<close>,
  and are not listed.
\<close>

definition UNICODE_MAP :: "(char \<times> string) list" where
  "UNICODE_MAP =
     [(CHR 0xE0, ''a''), (CHR 0xE1, ''a''), (CHR 0xE2, ''a''), (CHR 0xE3, ''a''), (CHR 0xE4, ''a''),
      (CHR 0xE5, ''a''), (CHR 0xE6, ''ae''),
      (CHR 0xE7, ''c''),
      (CHR 0xE8, ''e''), (CHR 0xE9, ''e''), (CHR 0xEA, ''e''), (CHR 0xEB, ''e''),
      (CHR 0xEC, ''i''), (CHR 0xED, ''i''), (CHR 0xEE, ''i''), (CHR 0xEF, ''i''),
      (CHR 0xF1, ''n''),
      (CHR 0xF2, ''o''), (CHR 0xF3, ''o''), (CHR 0xF4, ''o''), (CHR 0xF5, ''o''), (CHR 0xF6, ''o''),
      (CHR 0xF8, ''o''),
      (CHR 0xF9, ''u''), (CHR 0xFA, ''u''), (CHR 0xFB, ''u''), (CHR 0xFC, ''u''),
      (CHR 0xFD, ''y''), (CHR 0xFF, ''y''),
      (CHR 0xDF, ''ss''),
      (CHR 0xF0, ''d''), (CHR 0xFE, ''th'')]"

text \<open>
  The canonical form under which the flag \<^verbatim>\<open>i\<close> compares two code units: the upper
  case, when that is one code unit. The upper case of U+00B5 and of U+00FF lies above
  255 and is shared with no other code unit of the model, so the two stay as they are;
  the upper case of U+00DF is two letters, so it stays too.
\<close>

definition canonicalize :: "char \<Rightarrow> char" where
  "canonicalize c =
     (let n = (of_char c :: nat)
      in if (97 \<le> n \<and> n \<le> 122) \<or> (224 \<le> n \<and> n \<le> 254 \<and> n \<noteq> 247)
         then char_of (n - 32) else c)"

text \<open>\<^verbatim>\<open>s.replace(new RegExp(key, flags), r)\<close> for a one-character pattern.\<close>

definition replace_char :: "bool \<Rightarrow> char \<Rightarrow> string \<Rightarrow> string \<Rightarrow> string" where
  "replace_char ignoreCase key r s =
     concat (map (\<lambda>c. if (if ignoreCase then canonicalize c = canonicalize key else c = key)
                        then r else [c]) s)"

text \<open>
  \<^verbatim>\<open>text.normalize('NFD')\<close> followed by the removal of the combining marks
  U+0300 to U+036F: a letter of the Latin-1 block with a canonical decomposition
  becomes its base letter, the combining mark goes; no other code unit below 256
  decomposes.
\<close>

definition nfd_strip_char :: "char \<Rightarrow> char" where
  "nfd_strip_char c =
     (let n = (of_char c :: nat)
      in if 192 \<le> n \<and> n \<le> 197 then CHR ''A''
         else if n = 199 then CHR ''C''
         else if 200 \<le> n \<and> n \<le> 203 then CHR ''E''
         else if 204 \<le> n \<and> n \<le> 207 then CHR ''I''
         else if n = 209 then CHR ''N''
         else if 210 \<le> n \<and> n \<le> 214 then CHR ''O''
         else if 217 \<le> n \<and> n \<le> 220 then CHR ''U''
         else if n = 221 then CHR ''Y''
         else if 224 \<le> n \<and> n \<le> 229 then CHR ''a''
         else if n = 231 then CHR ''c''
         else if 232 \<le> n \<and> n \<le> 235 then CHR ''e''
         else if 236 \<le> n \<and> n \<le> 239 then CHR ''i''
         else if n = 241 then CHR ''n''
         else if 242 \<le> n \<and> n \<le> 246 then CHR ''o''
         else if 249 \<le> n \<and> n \<le> 252 then CHR ''u''
         else if n = 253 \<or> n = 255 then CHR ''y''
         else c)"

definition removeAccents :: "string \<Rightarrow> string" where
  "removeAccents text =
     fold (\<lambda>(accented, plain) normalized. replace_char False accented plain normalized)
       UNICODE_MAP (map nfd_strip_char text)"

text \<open>The class \<^verbatim>\<open>\w\<close>.\<close>

definition isWordChar :: "char \<Rightarrow> bool" where
  "isWordChar c =
     (let n = (of_char c :: nat)
      in (48 \<le> n \<and> n \<le> 57) \<or> (65 \<le> n \<and> n \<le> 90) \<or> n = 95 \<or> (97 \<le> n \<and> n \<le> 122))"

text \<open>\<^verbatim>\<open>s.replace(/[-']+/g, ' ')\<close>\<close>

function replace_dash_runs :: "string \<Rightarrow> string" where
  "replace_dash_runs [] = []"
| "replace_dash_runs (c # cs) =
     (if c = CHR ''-'' \<or> c = CHR 0x27
      then CHR '' '' # replace_dash_runs (dropWhile (\<lambda>d. d = CHR ''-'' \<or> d = CHR 0x27) cs)
      else c # replace_dash_runs cs)"
  by pat_completeness auto
termination
  by (relation "measure length") (auto simp: le_imp_less_Suc length_dropWhile_le)

definition removePunctuation :: "string \<Rightarrow> string" where
  "removePunctuation text =
     replace_ws_runs '' ''
       (replace_dash_runs
          (map (\<lambda>c. if isWordChar c \<or> isWhiteSpace c \<or> c = CHR 0x27 \<or> c = CHR ''-''
                     then c else CHR '' '') text))"

definition normalizeWhitespace :: "string \<Rightarrow> string" where
  "normalizeWhitespace text = replace_ws_runs '' '' (trim text)"

text \<open>
  \<^verbatim>\<open>s.split(/\s+/)\<close>: the pieces between the runs of white space; a run at either
  end leaves an empty piece there, and the empty string gives one empty piece.
  \<open>cur\<close> is the piece being read.
\<close>

function split_ws :: "string \<Rightarrow> string \<Rightarrow> string list" where
  "split_ws cur [] = [cur]"
| "split_ws cur (c # cs) =
     (if isWhiteSpace c then cur # split_ws [] (dropWhile isWhiteSpace cs)
      else split_ws (cur @ [c]) cs)"
  by pat_completeness auto
termination
  by (relation "measure (\<lambda>(cur, s). length s)") (auto simp: le_imp_less_Suc length_dropWhile_le)

text \<open>\<^verbatim>\<open>words.join(' ')\<close>\<close>

fun join_sp :: "string list \<Rightarrow> string" where
  "join_sp [] = []"
| "join_sp [w] = w"
| "join_sp (w # ws) = w @ '' '' @ join_sp ws"

definition removeStopWords :: "string \<Rightarrow> string" where
  "removeStopWords text =
     join_sp (filter (\<lambda>word. toLowerCase word \<notin> set STOP_WORDS) (split_ws [] text))"

definition removeArticles :: "string \<Rightarrow> string" where
  "removeArticles text =
     (let words = split_ws [] text
      in if length words > 1
         then join_sp (filter (\<lambda>word. toLowerCase word \<notin> set ARTICLES) words)
         else text)"

definition convertUnicode :: "string \<Rightarrow> string" where
  "convertUnicode text =
     fold (\<lambda>(unicode, ascii) result. replace_char True unicode ascii result) UNICODE_MAP text"

text \<open>\<^verbatim>\<open>normalizeText\<close>, given the configuration already merged with the defaults.\<close>

definition normalizeText :: "string \<Rightarrow> NormalizationConfig \<Rightarrow> string" where
  "normalizeText text fullConfig =
     (let normalized = text;
          normalized = (if convertUnicode_flag fullConfig then convertUnicode normalized else normalized);
          normalized = (if removeAccents_flag fullConfig then removeAccents normalized else normalized);
          normalized = (if lowercase_flag fullConfig then toLowerCase normalized else normalized);
          normalized = (if removePunctuation_flag fullConfig then removePunctuation normalized else normalized);
          normalized = (if normalizeWhitespace_flag fullConfig then normalizeWhitespace normalized else normalized);
          normalized = (if removeArticles_flag fullConfig then removeArticles normalized else normalized);
          normalized = (if removeStopWords_flag fullConfig then removeStopWords normalized else normalized)
      in normalizeWhitespace normalized)"

definition normalizeForMatching :: "string \<Rightarrow> string" where
  "normalizeForMatching text =
     normalizeText text
       \<lparr> removeAccents_flag = True, lowercase_flag = True, removePunctuation_flag = True,
         normalizeWhitespace_flag = True, removeStopWords_flag = False,
         removeArticles_flag = True, convertUnicode_flag = True \<rparr>"

text \<open>
  \<^verbatim>\<open>levenshteinDistance\<close> fills a matrix row by row. \<open>fill_row\<close> computes the cells
  \<open>matrix[i][j..]\<close> from the cells \<open>matrix[i-1][j-1..]\<close> of the row above and the cell
  \<open>left = matrix[i][j-1]\<close>; \<open>c\<close> is \<open>str1[i-1]\<close> and the string is \<open>str2[j-1..]\<close>.
\<close>

fun fill_row :: "char \<Rightarrow> string \<Rightarrow> nat list \<Rightarrow> nat \<Rightarrow> nat list" where
  "fill_row c (d # ds) (diag # up # rest) left =
     (let cell = (if c = d then diag else min (min (up + 1) (left + 1)) (diag + 1))
      in cell # fill_row c ds (up # rest) cell)"
| "fill_row c ds row left = []"

definition levenshteinDistance :: "string \<Rightarrow> string \<Rightarrow> nat" where
  "levenshteinDistance str1 str2 =
     last (foldl (\<lambda>row (i, c). i # fill_row c str2 row i)
             [0 ..< Suc (length str2)]
             (zip [1 ..< Suc (length str1)] str1))"

text \<open>The \<^verbatim>\<open>calculateSimilarity\<close> of \<^verbatim>\<open>text-normalizer.ts\<close>.\<close>

definition calculateSimilarity_tn :: "string \<Rightarrow> string \<Rightarrow> js_number" where
  "calculateSimilarity_tn text1 text2 =
     (let normalized1 = normalizeForMatching text1;
          normalized2 = normalizeForMatching text2
      in if normalized1 = normalized2 then Finite 100
         else if length normalized1 = 0 \<or> length normalized2 = 0 then Finite 0
         else
           let maxLength = max (length normalized1) (length normalized2);
               distance = levenshteinDistance normalized1 normalized2
           in Math_round
                (js_mult
                   (js_sub (Finite 1)
                      (js_div (Finite (rat_of_nat distance)) (Finite (rat_of_nat maxLength))))
                   (Finite 100)))"

section \<open>types/matcher.types.ts\<close>

text \<open>Every field of type \<^verbatim>\<open>number\<close> is a Number, whatever value it is meant to hold.\<close>

record MatchConfig =
  minSimilarity :: js_number
  minConfidence :: js_number
  maxResults :: js_number
  exactMatchWeight :: js_number
  fuzzyMatchWeight :: js_number
  aliasMatchWeight :: js_number

record ConfidenceBreakdown =
  exactMatch :: js_number
  fuzzyMatch :: js_number
  aliasMatch :: js_number
  weighted :: js_number

definition DEFAULT_MATCH_CONFIG :: MatchConfig where
  "DEFAULT_MATCH_CONFIG =
     \<lparr> minSimilarity = Finite 60, minConfidence = Finite 70, maxResults = Finite 10,
       exactMatchWeight = Finite 1, fuzzyMatchWeight = fl (8 / 10),
       aliasMatchWeight = fl (9 / 10) \<rparr>"

section \<open>matchers/confidence-scorer.ts\<close>

definition calculateWeightedScore :: "ConfidenceBreakdown \<Rightarrow> MatchConfig \<Rightarrow> js_number" where
  "calculateWeightedScore breakdown config =
     (let (maxScore, appliedWeight) =
            (if js_less (Finite 0) (exactMatch breakdown)
             then (exactMatch breakdown, exactMatchWeight config)
             else if js_less (Finite 0) (aliasMatch breakdown)
             then (aliasMatch breakdown, aliasMatchWeight config)
             else (fuzzyMatch breakdown, fuzzyMatchWeight config));
          weightedScore = js_mult maxScore appliedWeight
      in Math_min (Finite 100) (Math_max (Finite 0) (Math_round weightedScore)))"

text \<open>The loop over the aliases, with its \<^verbatim>\<open>break\<close> at the first exact match.\<close>

fun bestAliasScore_loop :: "string \<Rightarrow> string list \<Rightarrow> js_number \<Rightarrow> js_number" where
  "bestAliasScore_loop query [] bestAliasScore = bestAliasScore"
| "bestAliasScore_loop query (alias # rest) bestAliasScore =
     (if isExactMatch query alias then Finite 100
      else bestAliasScore_loop query rest
             (Math_max bestAliasScore (calculateSimilarity query alias)))"

text \<open>
  The parameter \<^verbatim>\<open>aliases\<close> is optional with default \<^verbatim>\<open>[]\<close>: \<open>None\<close> is the
  \<^verbatim>\<open>undefined\<close> a caller passes for an entity without aliases.
\<close>

definition calculateConfidence ::
  "string \<Rightarrow> string \<Rightarrow> string list option \<Rightarrow> MatchConfig \<Rightarrow> ConfidenceBreakdown" where
  "calculateConfidence query targetName aliases_opt config =
     (let aliases = (case aliases_opt of None \<Rightarrow> [] | Some as \<Rightarrow> as);
          breakdown = \<lparr> exactMatch = Finite 0, fuzzyMatch = Finite 0, aliasMatch = Finite 0,
                        weighted = Finite 0 \<rparr>
      in if query = [] \<or> targetName = [] then breakdown
         else
           let breakdown = (if isExactMatch query targetName
                            then breakdown\<lparr> exactMatch := Finite 100 \<rparr> else breakdown);
               breakdown = breakdown\<lparr> fuzzyMatch := calculateSimilarity query targetName \<rparr>;
               breakdown = (if aliases \<noteq> []
                            then breakdown\<lparr> aliasMatch :=
                                   bestAliasScore_loop query aliases (Finite 0) \<rparr>
                            else breakdown)
           in breakdown\<lparr> weighted := calculateWeightedScore breakdown config \<rparr>)"

definition meetsConfidenceThreshold :: "ConfidenceBreakdown \<Rightarrow> MatchConfig \<Rightarrow> bool" where
  "meetsConfidenceThreshold breakdown config = js_le (minConfidence config) (weighted breakdown)"

text \<open>
  The entity types of \<^verbatim>\<open>matcher.types.ts\<close>. \<^verbatim>\<open>aliases\<close> is an optional
  field; \<^verbatim>\<open>id\<close> and \<^verbatim>\<open>name\<close> carry a suffix, \<open>_e\<close> on an entity and \<open>_m\<close> on
  a match result.
\<close>

record MatchableEntity =
  id_e :: string
  name_e :: string
  aliases :: "string list option"

record MatchableVenue = MatchableEntity +
  city :: string

record MatchResult =
  id_m :: string
  name_m :: string
  confidence :: js_number
  breakdown :: ConfidenceBreakdown

record VenueMatch = MatchResult +
  city_m :: string

text \<open>
  \<^verbatim>\<open>scoreEntities\<close> returns each kept entity together with its breakdown (the
  object \<^verbatim>\<open>{...entity, confidence}\<close>). The comparator is
  \<^verbatim>\<open>b.confidence.weighted - a.confidence.weighted\<close>; it is consistent on the
  entries that pass the filter, whose weighted scores are integers from 0 to 100
  (lemma \<open>qualifying_weighted\<close>).
\<close>

definition scoreEntities ::
  "string \<Rightarrow> ('a MatchableEntity_scheme) list \<Rightarrow> MatchConfig
     \<Rightarrow> ('a MatchableEntity_scheme \<times> ConfidenceBreakdown) list" where
  "scoreEntities query entities config =
     (if query = [] \<or> entities = [] then []
      else
        slice0 (maxResults config)
          (Array_sort (\<lambda>a b. js_sub (weighted (snd b)) (weighted (snd a)))
             (filter (\<lambda>item. meetsConfidenceThreshold (snd item) config)
                (map (\<lambda>entity. (entity, calculateConfidence query (name_e entity) (aliases entity) config))
                   entities))))"

section \<open>entity-matcher.ts\<close>

text \<open>
  An \<^verbatim>\<open>EntityMatcher\<close> holds nothing but its \<^verbatim>\<open>config\<close>, the first argument
  here. The stopwatch around each call (\<^verbatim>\<open>performance.now\<close>, a console warning
  above 100ms) does not touch the result and is left out.
\<close>

text \<open>\<^verbatim>\<open>s.includes(sub)\<close>\<close>

definition startsWith :: "string \<Rightarrow> string \<Rightarrow> bool" where
  "startsWith s sub = (take (length sub) s = sub)"

fun includes_str :: "string \<Rightarrow> string \<Rightarrow> bool" where
  "includes_str [] sub = (sub = [])"
| "includes_str (c # cs) sub = (startsWith (c # cs) sub \<or> includes_str cs sub)"

definition matchArtists :: "MatchConfig \<Rightarrow> string \<Rightarrow> MatchableEntity list \<Rightarrow> MatchResult list" where
  "matchArtists config query artists =
     (if trim query = [] \<or> artists = [] then []
      else
        map (\<lambda>(artist, conf).
               \<lparr> id_m = id_e artist, name_m = name_e artist,
                 confidence = weighted conf, breakdown = conf \<rparr>)
            (scoreEntities (trim query) artists config))"

definition filterByCity :: "MatchableVenue list \<Rightarrow> string option \<Rightarrow> MatchableVenue list" where
  "filterByCity venues cityFilter =
     (case cityFilter of
        None \<Rightarrow> venues
      | Some cf \<Rightarrow>
          if trim cf \<noteq> []
          then filter (\<lambda>venue. includes_str (toLowerCase (city venue)) (toLowerCase cf)) venues
          else venues)"

definition matchVenues ::
  "MatchConfig \<Rightarrow> string \<Rightarrow> MatchableVenue list \<Rightarrow> string option \<Rightarrow> VenueMatch list" where
  "matchVenues config query venues cityFilter =
     (if trim query = [] \<or> venues = [] then []
      else
        let filteredVenues = filterByCity venues cityFilter
        in map (\<lambda>(venue, conf).
                  \<lparr> id_m = id_e venue, name_m = name_e venue,
                    confidence = weighted conf, breakdown = conf, city_m = city venue \<rparr>)
               (scoreEntities (trim query) filteredVenues config))"

section \<open>cache/lru-cache.ts\<close>

text \<open>
  The class \<^verbatim>\<open>LRUCache\<close>. The object is a record that every method takes and
  returns; \<^verbatim>\<open>Date.now()\<close> is the argument \<open>now\<close>, in milliseconds. Clashing
  names carry a suffix: \<open>value_c\<close>, \<open>size_m\<close>, \<open>config_lru\<close>, \<open>metrics_lru\<close>,
  \<open>set_lru\<close>, \<open>get_lru\<close> and so on. The handle \<^verbatim>\<open>cleanupTimer\<close> is not part of
  the record: the periodic sweep is the method \<open>cleanup\<close>, run by whoever owns the
  clock.
\<close>

record CacheMetrics =
  hits :: nat
  misses :: nat
  evictions :: nat
  size_m :: nat
  hitRate :: js_number

record 'v CacheEntry =
  value_c :: 'v
  timestamp :: int
  expiresAt :: "int option"
  accessCount :: nat

record LRUCacheConfig =
  maxSize :: int
  defaultTTL :: int
  cleanupInterval :: int
  enableMetrics :: bool

definition DEFAULT_LRU_CONFIG :: LRUCacheConfig where
  "DEFAULT_LRU_CONFIG =
     \<lparr> maxSize = 1000, defaultTTL = 300000, cleanupInterval = 60000, enableMetrics = True \<rparr>"

text \<open>
  A JavaScript \<^verbatim>\<open>Map\<close> keeps its keys in insertion order: an association list
  with distinct keys, where writing an existing key keeps its place and a new key
  goes to the end. A \<^verbatim>\<open>Set\<close> is a list without repetition, in insertion order.
\<close>

definition Map_get :: "(string \<times> 'e) list \<Rightarrow> string \<Rightarrow> 'e option" where
  "Map_get m key = map_of m key"

definition Map_has :: "(string \<times> 'e) list \<Rightarrow> string \<Rightarrow> bool" where
  "Map_has m key = (key \<in> set (map fst m))"

fun Map_set :: "string \<Rightarrow> 'e \<Rightarrow> (string \<times> 'e) list \<Rightarrow> (string \<times> 'e) list" where
  "Map_set key e [] = [(key, e)]"
| "Map_set key e (p # ps) = (if fst p = key then (key, e) # ps else p # Map_set key e ps)"

definition Map_delete :: "string \<Rightarrow> (string \<times> 'e) list \<Rightarrow> (string \<times> 'e) list" where
  "Map_delete key m = filter (\<lambda>p. fst p \<noteq> key) m"

definition Set_add :: "string \<Rightarrow> string list \<Rightarrow> string list" where
  "Set_add key xs = (if key \<in> set xs then xs else xs @ [key])"

definition Set_delete :: "string \<Rightarrow> string list \<Rightarrow> string list" where
  "Set_delete key xs = filter (\<lambda>k. k \<noteq> key) xs"

record 'v LRUCache =
  cache :: "(string \<times> 'v CacheEntry) list"
  accessOrder :: "string list"
  config_lru :: LRUCacheConfig
  metrics_lru :: CacheMetrics
  lock :: "string list"

text \<open>The constructor, given the configuration already merged with the defaults.\<close>

definition LRUCache_new :: "LRUCacheConfig \<Rightarrow> 'v LRUCache" where
  "LRUCache_new c =
     \<lparr> cache = [], accessOrder = [], config_lru = c,
       metrics_lru = \<lparr> hits = 0, misses = 0, evictions = 0, size_m = 0, hitRate = Finite 0 \<rparr>,
       lock = [] \<rparr>"

definition isExpired :: "int \<Rightarrow> 'v CacheEntry \<Rightarrow> bool" where
  "isExpired now entry = (case expiresAt entry of None \<Rightarrow> False | Some e \<Rightarrow> now > e)"

definition updateSize :: "'v LRUCache \<Rightarrow> 'v LRUCache" where
  "updateSize s = s\<lparr> metrics_lru := (metrics_lru s)\<lparr> size_m := length (cache s) \<rparr> \<rparr>"

definition updateHitRate :: "CacheMetrics \<Rightarrow> CacheMetrics" where
  "updateHitRate m =
     (let total = hits m + misses m
      in m\<lparr> hitRate :=
             (if total > 0
              then js_mult (js_div (Finite (rat_of_nat (hits m))) (Finite (rat_of_nat total)))
                     (Finite 100)
              else Finite 0) \<rparr>)"

definition recordHit :: "'v LRUCache \<Rightarrow> 'v LRUCache" where
  "recordHit s =
     (if enableMetrics (config_lru s)
      then s\<lparr> metrics_lru := updateHitRate ((metrics_lru s)\<lparr> hits := hits (metrics_lru s) + 1 \<rparr>) \<rparr>
      else s)"

definition recordMiss :: "'v LRUCache \<Rightarrow> 'v LRUCache" where
  "recordMiss s =
     (if enableMetrics (config_lru s)
      then s\<lparr> metrics_lru := updateHitRate ((metrics_lru s)\<lparr> misses := misses (metrics_lru s) + 1 \<rparr>) \<rparr>
      else s)"

text \<open>
  \<^verbatim>\<open>evictLRU\<close> reads the first key of \<^verbatim>\<open>accessOrder\<close> and tests it with
  \<^verbatim>\<open>if (lruKey)\<close>: \<^verbatim>\<open>undefined\<close> (an empty set) and the empty string are both
  falsy, and then nothing is evicted.
\<close>

definition evictLRU :: "'v LRUCache \<Rightarrow> 'v LRUCache" where
  "evictLRU s =
     (case accessOrder s of
        [] \<Rightarrow> s
      | lruKey # _ \<Rightarrow>
          if lruKey \<noteq> []
          then updateSize
                 (s\<lparr> cache := Map_delete lruKey (cache s),
                    accessOrder := Set_delete lruKey (accessOrder s),
                    metrics_lru := (metrics_lru s)\<lparr> evictions := evictions (metrics_lru s) + 1 \<rparr> \<rparr>)
          else s)"

text \<open>
  \<^verbatim>\<open>while (this.lock.has(key)) { }\<close>: the body is empty, so the loop ends at once
  when the key is not locked and never otherwise; \<open>None\<close> is not returning.
\<close>

partial_function (option) spin :: "string list \<Rightarrow> string \<Rightarrow> unit option" where
  "spin lck key = (if key \<in> set lck then spin lck key else Some ())"

declare spin.simps [code]

text \<open>
  \<^verbatim>\<open>get\<close> returns the value or \<^verbatim>\<open>undefined\<close> (\<open>None\<close>), and the cache after the
  call.
\<close>

definition get_lru :: "int \<Rightarrow> string \<Rightarrow> 'v LRUCache \<Rightarrow> ('v option \<times> 'v LRUCache) option" where
  "get_lru now key s =
     (case spin (lock s) key of
        None \<Rightarrow> None
      | Some _ \<Rightarrow>
          (case Map_get (cache s) key of
             None \<Rightarrow> Some (None, recordMiss s)
           | Some entry \<Rightarrow>
               if isExpired now entry
               then Some (None,
                      recordMiss (updateSize
                        (s\<lparr> cache := Map_delete key (cache s),
                           accessOrder := Set_delete key (accessOrder s) \<rparr>)))
               else Some (Some (value_c entry),
                      recordHit
                        (s\<lparr> accessOrder := Set_add key (Set_delete key (accessOrder s)),
                           cache := Map_set key (entry\<lparr> accessCount := accessCount entry + 1 \<rparr>) (cache s) \<rparr>))))"

text \<open>
  \<^verbatim>\<open>set(key, value, ttl?)\<close>: \<open>ttl = None\<close> is the omitted argument, replaced by the
  default (\<^verbatim>\<open>ttl ?? this.config.defaultTTL\<close>); the \<^verbatim>\<open>finally\<close> block unlocks
  the key on both ways out.
\<close>

definition set_lru :: "int \<Rightarrow> string \<Rightarrow> 'v \<Rightarrow> int option \<Rightarrow> 'v LRUCache \<Rightarrow> 'v LRUCache" where
  "set_lru now key v ttl s =
     (let s1 = s\<lparr> lock := Set_add key (lock s) \<rparr>;
          effectiveTTL = (case ttl of None \<Rightarrow> defaultTTL (config_lru s1) | Some t \<Rightarrow> t);
          expiresAt' = (if effectiveTTL > 0 then Some (now + effectiveTTL) else None);
          entry = \<lparr> value_c = v, timestamp = now, expiresAt = expiresAt', accessCount = 1 \<rparr>;
          s2 = (if Map_has (cache s1) key
                then s1\<lparr> cache := Map_set key entry (cache s1),
                        accessOrder := Set_add key (Set_delete key (accessOrder s1)) \<rparr>
                else
                  let s3 = (if int (length (cache s1)) \<ge> maxSize (config_lru s1)
                            then evictLRU s1 else s1)
                  in updateSize
                       (s3\<lparr> cache := Map_set key entry (cache s3),
                           accessOrder := Set_add key (accessOrder s3) \<rparr>))
      in s2\<lparr> lock := Set_delete key (lock s2) \<rparr>)"











section \<open>cache/matcher-cache.ts\<close>

text \<open>
  The three partitions of \<^verbatim>\<open>MatcherCache\<close>. The response-time statistics
  (\<^verbatim>\<open>recordResponse\<close>, \<^verbatim>\<open>performance.now\<close>) feed \<^verbatim>\<open>getMetrics\<close> only and are
  left out, as are cache warming and its timer.

  \<^verbatim>\<open>hashConfig\<close> prints the six numbers of a configuration into a template
  string, encodes it (\<^verbatim>\<open>Buffer.from\<close>, UTF-8) in base64 and keeps eight
  characters. How JavaScript prints a number is not modelled: it is the parameter
  \<open>numberToString\<close> of every function that builds a key.
\<close>

definition utf8 :: "string \<Rightarrow> nat list" where
  "utf8 s =
     concat (map (\<lambda>c. let n = (of_char c :: nat)
                      in if n < 128 then [n] else [192 + n div 64, 128 + n mod 64]) s)"

definition base64_alphabet :: string where
  "base64_alphabet = ''ABCDEFGHIJKLMNOPQRSTUVWXYZabcdefghijklmnopqrstuvwxyz0123456789+/''"

fun base64 :: "nat list \<Rightarrow> string" where
  "base64 [] = []"
| "base64 [a] =
     [base64_alphabet ! (a div 4), base64_alphabet ! ((a mod 4) * 16), CHR ''='', CHR ''='']"
| "base64 [a, b] =
     [base64_alphabet ! (a div 4), base64_alphabet ! ((a mod 4) * 16 + b div 16),
      base64_alphabet ! ((b mod 16) * 4), CHR ''='']"
| "base64 (a # b # c # rest) =
     [base64_alphabet ! (a div 4), base64_alphabet ! ((a mod 4) * 16 + b div 16),
      base64_alphabet ! ((b mod 16) * 4 + c div 64), base64_alphabet ! (c mod 64)]
     @ base64 rest"

record MatcherCacheConfig = LRUCacheConfig +
  artistCacheTTL :: int
  venueCacheTTL :: int
  aliasCacheTTL :: int
  enableWarming :: bool
  warmingQueries :: "string list"

definition DEFAULT_MATCHER_CACHE_CONFIG :: MatcherCacheConfig where
  "DEFAULT_MATCHER_CACHE_CONFIG =
     \<lparr> maxSize = 5000, defaultTTL = 300000, cleanupInterval = 120000, enableMetrics = True,
       artistCacheTTL = 600000, venueCacheTTL = 300000, aliasCacheTTL = 900000,
       enableWarming = True,
       warmingQueries =
         [''the'', ''a'', ''and'', ''of'', ''to'', ''in'', ''for'', ''with'', ''on'', ''at'',
          ''taylor swift'', ''the beatles'', ''rolling stones'', ''pink floyd'',
          ''madison square garden'', ''hollywood bowl'', ''red rocks''] \<rparr>"

record MatcherCache =
  artistCache :: "MatchResult list LRUCache"
  venueCache :: "VenueMatch list LRUCache"
  aliasCache :: "string list LRUCache"
  config_mc :: MatcherCacheConfig

text \<open>
  The constructor: half of the capacity for artists, four tenths for venues, one
  tenth for aliases, each a product of doubles, rounded down by \<^verbatim>\<open>Math.floor\<close>.
\<close>

definition MatcherCache_new :: "MatcherCacheConfig \<Rightarrow> MatcherCache" where
  "MatcherCache_new c =
     \<lparr> artistCache = LRUCache_new
         \<lparr> maxSize = integer_of (Math_floor (js_mult (Finite (rat_of_int (maxSize c))) (fl (5 / 10)))),
           defaultTTL = artistCacheTTL c,
           cleanupInterval = cleanupInterval c, enableMetrics = enableMetrics c \<rparr>,
       venueCache = LRUCache_new
         \<lparr> maxSize = integer_of (Math_floor (js_mult (Finite (rat_of_int (maxSize c))) (fl (4 / 10)))),
           defaultTTL = venueCacheTTL c,
           cleanupInterval = cleanupInterval c, enableMetrics = enableMetrics c \<rparr>,
       aliasCache = LRUCache_new
         \<lparr> maxSize = integer_of (Math_floor (js_mult (Finite (rat_of_int (maxSize c))) (fl (1 / 10)))),
           defaultTTL = aliasCacheTTL c,
           cleanupInterval = cleanupInterval c, enableMetrics = enableMetrics c \<rparr>,
       config_mc = c \<rparr>"

definition hashConfig :: "(js_number \<Rightarrow> string) \<Rightarrow> MatchConfig \<Rightarrow> string" where
  "hashConfig numberToString config =
     (let configString =
            numberToString (minSimilarity config) @ '':'' @
            numberToString (minConfidence config) @ '':'' @
            numberToString (maxResults config) @ '':'' @
            numberToString (exactMatchWeight config) @ '':'' @
            numberToString (fuzzyMatchWeight config) @ '':'' @
            numberToString (aliasMatchWeight config)
      in take 8 (base64 (utf8 configString)))"

definition generateArtistCacheKey :: "(js_number \<Rightarrow> string) \<Rightarrow> string \<Rightarrow> MatchConfig \<Rightarrow> string" where
  "generateArtistCacheKey numberToString query config =
     (let configHash = hashConfig numberToString config
      in ''artist:'' @ trim (toLowerCase query) @ '':'' @ configHash)"

definition generateVenueCacheKey ::
  "(js_number \<Rightarrow> string) \<Rightarrow> string \<Rightarrow> MatchConfig \<Rightarrow> string option \<Rightarrow> string" where
  "generateVenueCacheKey numberToString query config cityFilter =
     (let configHash = hashConfig numberToString config;
          city_part = (case cityFilter of
                         None \<Rightarrow> []
                       | Some cf \<Rightarrow> if cf \<noteq> [] then '':'' @ trim (toLowerCase cf) else [])
      in ''venue:'' @ trim (toLowerCase query) @ city_part @ '':'' @ configHash)"

definition getArtistMatches ::
  "(js_number \<Rightarrow> string) \<Rightarrow> int \<Rightarrow> string \<Rightarrow> MatchConfig \<Rightarrow> MatcherCache
     \<Rightarrow> (MatchResult list option \<times> MatcherCache) option" where
  "getArtistMatches numberToString now query matchConfig mc =
     (case get_lru now (generateArtistCacheKey numberToString query matchConfig) (artistCache mc) of
        None \<Rightarrow> None
      | Some (result, c) \<Rightarrow> Some (result, mc\<lparr> artistCache := c \<rparr>))"

definition setArtistMatches ::
  "(js_number \<Rightarrow> string) \<Rightarrow> int \<Rightarrow> string \<Rightarrow> MatchConfig \<Rightarrow> MatchResult list
     \<Rightarrow> MatcherCache \<Rightarrow> MatcherCache" where
  "setArtistMatches numberToString now query matchConfig matches mc =
     mc\<lparr> artistCache :=
          set_lru now (generateArtistCacheKey numberToString query matchConfig) matches None
            (artistCache mc) \<rparr>"

definition getVenueMatches ::
  "(js_number \<Rightarrow> string) \<Rightarrow> int \<Rightarrow> string \<Rightarrow> MatchConfig \<Rightarrow> string option \<Rightarrow> MatcherCache
     \<Rightarrow> (VenueMatch list option \<times> MatcherCache) option" where
  "getVenueMatches numberToString now query matchConfig cityFilter mc =
     (case get_lru now (generateVenueCacheKey numberToString query matchConfig cityFilter) (venueCache mc) of
        None \<Rightarrow> None
      | Some (result, c) \<Rightarrow> Some (result, mc\<lparr> venueCache := c \<rparr>))"

definition setVenueMatches ::
  "(js_number \<Rightarrow> string) \<Rightarrow> int \<Rightarrow> string \<Rightarrow> MatchConfig \<Rightarrow> VenueMatch list
     \<Rightarrow> string option \<Rightarrow> MatcherCache \<Rightarrow> MatcherCache" where
  "setVenueMatches numberToString now query matchConfig matches cityFilter mc =
     mc\<lparr> venueCache :=
          set_lru now (generateVenueCacheKey numberToString query matchConfig cityFilter) matches None
            (venueCache mc) \<rparr>"

section \<open>cache/cached-entity-matcher.ts\<close>

text \<open>
  A \<^verbatim>\<open>CachedEntityMatcher\<close> is the inherited \<^verbatim>\<open>config\<close> and the
  \<^verbatim>\<open>MatcherCache\<close>. The two methods read the clock when they look the key up
  (\<open>now_get\<close>) and when they store a computed result (\<open>now_set\<close>); \<open>None\<close> is a call
  that does not return. Logging is left out.
\<close>

record CachedEntityMatcher =
  config_cem :: MatchConfig
  cache_cem :: MatcherCache

definition CachedEntityMatcher_new :: "MatchConfig \<Rightarrow> MatcherCacheConfig \<Rightarrow> CachedEntityMatcher" where
  "CachedEntityMatcher_new matchConfig cacheConfig =
     \<lparr> config_cem = matchConfig, cache_cem = MatcherCache_new cacheConfig \<rparr>"

definition matchArtists_cached ::
  "(js_number \<Rightarrow> string) \<Rightarrow> int \<Rightarrow> int \<Rightarrow> string \<Rightarrow> MatchableEntity list
     \<Rightarrow> CachedEntityMatcher \<Rightarrow> (MatchResult list \<times> CachedEntityMatcher) option" where
  "matchArtists_cached numberToString now_get now_set query artists m =
     (if trim query = [] \<or> artists = [] then Some ([], m)
      else
        let config = config_cem m
        in case getArtistMatches numberToString now_get query config (cache_cem m) of
             None \<Rightarrow> None
           | Some (Some cachedResult, mc) \<Rightarrow> Some (cachedResult, m\<lparr> cache_cem := mc \<rparr>)
           | Some (None, mc) \<Rightarrow>
               let result = matchArtists (config_cem m) query artists
               in Some (result,
                        m\<lparr> cache_cem := setArtistMatches numberToString now_set query config result mc \<rparr>))"

definition matchVenues_cached ::
  "(js_number \<Rightarrow> string) \<Rightarrow> int \<Rightarrow> int \<Rightarrow> string \<Rightarrow> MatchableVenue list \<Rightarrow> string option
     \<Rightarrow> CachedEntityMatcher \<Rightarrow> (VenueMatch list \<times> CachedEntityMatcher) option" where
  "matchVenues_cached numberToString now_get now_set query venues cityFilter m =
     (if trim query = [] \<or> venues = [] then Some ([], m)
      else
        let config = config_cem m
        in case getVenueMatches numberToString now_get query config cityFilter (cache_cem m) of
             None \<Rightarrow> None
           | Some (Some cachedResult, mc) \<Rightarrow> Some (cachedResult, m\<lparr> cache_cem := mc \<rparr>)
           | Some (None, mc) \<Rightarrow>
               let result = matchVenues (config_cem m) query venues cityFilter
               in Some (result,
                        m\<lparr> cache_cem :=
                             setVenueMatches numberToString now_set query config result cityFilter mc \<rparr>))"

section \<open>Notions of the statements and proofs\<close>


text \<open>\<^verbatim>\<open>Number.isFinite\<close>, and a score that lies between 0 and 100.\<close>

definition isFinite :: "js_number \<Rightarrow> bool" where
  "isFinite x = (case x of Finite r \<Rightarrow> True | _ \<Rightarrow> False)"


text \<open>A score: an integer from 0 to 100.\<close>

definition is_score :: "js_number \<Rightarrow> bool" where
  "is_score x =
     (case x of Finite r \<Rightarrow> r = rat_of_int \<lfloor>r\<rfloor> \<and> 0 \<le> r \<and> r \<le> 100 | _ \<Rightarrow> False)"

text \<open>The rational value of a finite Number (0 for the others).\<close>

definition number_value :: "js_number \<Rightarrow> rat" where
  "number_value x = (case x of Finite r \<Rightarrow> r | _ \<Rightarrow> 0)"

text \<open>
  The best applicable sub-score with its weight: exact before alias before fuzzy,
  the first of them that is not zero.
\<close>

definition bestApplicable ::
  "ConfidenceBreakdown \<Rightarrow> MatchConfig \<Rightarrow> js_number \<times> js_number" where
  "bestApplicable b config =
     (if js_less (Finite 0) (exactMatch b) then (exactMatch b, exactMatchWeight config)
      else if js_less (Finite 0) (aliasMatch b) then (aliasMatch b, aliasMatchWeight config)
      else (fuzzyMatch b, fuzzyMatchWeight config))"

text \<open>
  The candidates that meet the threshold, each with its breakdown, in input order.
\<close>

definition qualifying ::
  "string \<Rightarrow> ('a MatchableEntity_scheme) list \<Rightarrow> MatchConfig
     \<Rightarrow> ('a MatchableEntity_scheme \<times> ConfidenceBreakdown) list" where
  "qualifying query entities config =
     filter (\<lambda>item. js_le (minConfidence config) (weighted (snd item)))
       (map (\<lambda>entity. (entity, calculateConfidence query (name_e entity) (aliases entity) config))
          entities)"

text \<open>
  The entry that \<^verbatim>\<open>set\<close> writes at time \<open>now\<close> for the value \<open>v\<close>, the optional
  \<open>ttl\<close> and the default \<open>dflt\<close> of the cache.
\<close>

definition entry_of :: "int \<Rightarrow> 'v \<Rightarrow> int option \<Rightarrow> int \<Rightarrow> 'v CacheEntry" where
  "entry_of now v ttl dflt =
     (let effectiveTTL = (case ttl of None \<Rightarrow> dflt | Some t \<Rightarrow> t)
      in \<lparr> value_c = v, timestamp = now,
           expiresAt = (if effectiveTTL > 0 then Some (now + effectiveTTL) else None),
           accessCount = 1 \<rparr>)"




text \<open>
  A run of \<^verbatim>\<open>set\<close> calls, each \<open>(now, key, value, ttl)\<close>, and the key of such a call.
\<close>

definition set_all :: "(int \<times> string \<times> 'v \<times> int option) list \<Rightarrow> 'v LRUCache \<Rightarrow> 'v LRUCache" where
  "set_all reqs s = fold (\<lambda>(now, key, v, ttl). set_lru now key v ttl) reqs s"

definition key_of :: "int \<times> string \<times> 'v \<times> int option \<Rightarrow> string" where
  "key_of req = fst (snd req)"

text \<open>
  How JavaScript prints the six numbers of the default configuration (any other
  number is printed as \<open>0\<close> here).
\<close>

definition printNumber :: "js_number \<Rightarrow> string" where
  "printNumber x =
     (if x = Finite 60 then ''60'' else if x = Finite 70 then ''70''
      else if x = Finite 10 then ''10'' else if x = Finite 1 then ''1''
      else if x = fl (8 / 10) then ''0.8'' else if x = fl (9 / 10) then ''0.9''
      else ''0'')"

section \<open>Doubles\<close>

text \<open>\<open>ilog2\<close> is the integer logarithm, and rounding to an integer is monotone.\<close>

lemma bitlen_powi:
  assumes "0 < p"
  shows "(2::rat) powi (bitlen p - 1) \<le> rat_of_int p" and "rat_of_int p < 2 powi (bitlen p)"
proof -
  from bitlen_bounds [OF assms] have b: "2 ^ nat (bitlen p - 1) \<le> p" "p < 2 ^ nat (bitlen p)" by auto
  have pos: "0 < bitlen p" using assms bitlen_bounds [OF assms] bitlen_nonneg [of p]
    by (cases "bitlen p = 0") auto
  from b(1) have "rat_of_int (2 ^ nat (bitlen p - 1)) \<le> rat_of_int p" by (simp only: of_int_le_iff)
  then show "(2::rat) powi (bitlen p - 1) \<le> rat_of_int p"
    using pos by (simp add: power_int_def)
  from b(2) have "rat_of_int p < rat_of_int (2 ^ nat (bitlen p))" by (simp only: of_int_less_iff)
  then show "rat_of_int p < 2 powi (bitlen p)"
    using pos by (simp add: power_int_def)
qed

lemma ilog2_bounds:
  assumes "0 < x"
  shows "2 powi (ilog2 x) \<le> x" and "x < 2 powi (ilog2 x + 1)"
proof -
  obtain p q where pq: "quotient_of x = (p, q)" by (cases "quotient_of x")
  then have q: "0 < q" using quotient_of_denom_pos by blast
  have x: "x = rat_of_int p / rat_of_int q" using pq by (rule quotient_of_div)
  have p: "0 < p" using assms q unfolding x by (simp add: zero_less_divide_iff)
  let ?d = "bitlen p - bitlen q"
  have lo: "(2::rat) powi (?d - 1) \<le> x"
  proof -
    have "(2::rat) powi (?d - 1) = 2 powi (bitlen p - 1) / 2 powi (bitlen q)"
      by (simp add: power_int_diff)
    also have "\<dots> \<le> rat_of_int p / 2 powi (bitlen q)"
      using bitlen_powi(1) [OF p] by (simp add: divide_right_mono)
    also have "\<dots> \<le> rat_of_int p / rat_of_int q"
      using bitlen_powi(2) [OF q] p q by (intro divide_left_mono) simp_all
    finally show ?thesis unfolding x .
  qed
  have hi: "x < (2::rat) powi (?d + 1)"
  proof -
    have "x < 2 powi (bitlen p) / rat_of_int q"
      unfolding x using bitlen_powi(2) [OF p] q by (simp add: divide_strict_right_mono)
    also have "\<dots> \<le> 2 powi (bitlen p) / 2 powi (bitlen q - 1)"
      using bitlen_powi(1) [OF q] q by (intro divide_left_mono) simp_all
    also have "\<dots> = 2 powi (?d + 1)"
      by (simp add: power_int_diff power_int_add)
    finally show ?thesis .
  qed
  show "2 powi (ilog2 x) \<le> x"
    using lo by (simp add: ilog2_def pq Let_def)
  show "x < 2 powi (ilog2 x + 1)"
    using hi by (auto simp: ilog2_def pq Let_def)
qed

lemma ilog2_less:
  assumes "0 < x" "x < 2 powi n"
  shows "ilog2 x < n"
proof (rule ccontr)
  assume "\<not> ilog2 x < n"
  then have "n \<le> ilog2 x" by simp
  then have "(2::rat) powi n \<le> 2 powi (ilog2 x)" by (intro power_int_increasing) simp_all
  with ilog2_bounds(1) [OF assms(1)] assms(2) show False by simp
qed

lemma round_half_even_of_int: "round_half_even (rat_of_int n) = n"
  by (simp add: round_half_even_def)

lemma round_half_even_le: "x \<le> rat_of_int n \<Longrightarrow> round_half_even x \<le> n"
  unfolding round_half_even_def Let_def by (auto; linarith)

lemma round_half_even_ge: "rat_of_int n \<le> x \<Longrightarrow> n \<le> round_half_even x"
  unfolding round_half_even_def Let_def by (auto; linarith)

lemma ilog2_zero: "ilog2 0 = - 2"
  by code_simp

lemma fl_not_NaN [simp]: "fl x \<noteq> NaN"
  unfolding fl_def Let_def by simp

lemma fl_small:
  assumes "0 < a" "a \<le> rat_of_int B" "B < 2 ^ 53"
  defines "e \<equiv> max (ilog2 a - 52) (- 1074)"
  defines "y \<equiv> rat_of_int (round_half_even (a / 2 powi e)) * 2 powi e"
  shows "0 \<le> y" and "y \<le> rat_of_int B" and "\<not> 1024 \<le> ilog2 y"
    and "a = rat_of_int n \<Longrightarrow> y = a"
proof -
  have "a < 2 powi 53"
  proof -
    have "rat_of_int B < rat_of_int (2 ^ 53)" using assms(3) by (simp only: of_int_less_iff)
    then show ?thesis using assms(2) by simp
  qed
  from ilog2_less [OF assms(1) this] have e0: "e \<le> 0" unfolding e_def by simp
  define k where "k = nat (- e)"
  have pw: "(2::rat) powi e = 1 / 2 ^ k"
    using e0 unfolding k_def by (simp add: power_int_def field_simps)
  have q: "a / 2 powi e = a * 2 ^ k" unfolding pw by simp
  have "a * 2 ^ k \<le> rat_of_int (B * 2 ^ k)" using assms(2) by simp
  from round_half_even_le [OF this] have m_le: "round_half_even (a * 2 ^ k) \<le> B * 2 ^ k" .
  have "rat_of_int 0 \<le> a * 2 ^ k" using assms(1) by simp
  from round_half_even_ge [OF this] have m_ge: "0 \<le> round_half_even (a * 2 ^ k)" .
  have y: "y = rat_of_int (round_half_even (a * 2 ^ k)) / 2 ^ k"
    unfolding y_def q unfolding pw by simp
  show y0: "0 \<le> y" unfolding y using m_ge by simp
  have "rat_of_int (round_half_even (a * 2 ^ k)) \<le> rat_of_int (B * 2 ^ k)"
    using m_le by (simp only: of_int_le_iff)
  then show yB: "y \<le> rat_of_int B" unfolding y by (simp add: field_simps)
  show "\<not> 1024 \<le> ilog2 y"
  proof (cases "y = 0")
    case True
    then show ?thesis by (simp add: ilog2_zero)
  next
    case False
    with y0 have yp: "0 < y" by simp
    have "rat_of_int B < rat_of_int (2 ^ 53)" using assms(3) by (simp only: of_int_less_iff)
    then have "y < 2 powi 53" using yB by simp
    from ilog2_less [OF yp this] show ?thesis by simp
  qed
  show "y = a" if "a = rat_of_int n"
  proof -
    have "a * 2 ^ k = rat_of_int (n * 2 ^ k)" using that by simp
    then have "round_half_even (a * 2 ^ k) = n * 2 ^ k"
      by (simp only: round_half_even_of_int)
    then show ?thesis unfolding y using that by simp
  qed
qed


lemma fl_of_int:
  assumes "\<bar>n\<bar> < 2 ^ 53"
  shows "fl (rat_of_int n) = Finite (rat_of_int n)"
proof -
  have pos: "fl (rat_of_int k) = Finite (rat_of_int k) \<and> fl (- rat_of_int k) = Finite (- rat_of_int k)"
    if k: "0 < k" "k < 2 ^ 53" for k
  proof -
    have a: "0 < rat_of_int k" "rat_of_int k \<le> rat_of_int k" using k(1) by simp_all
    have i: "rat_of_int k = rat_of_int k" by simp
    note f = fl_small(3) [OF a k(2)] fl_small(4) [OF a k(2) i]
    from f have g: "\<not> 1024 \<le> ilog2 (rat_of_int k)" by simp
    have "fl (rat_of_int k) = Finite (rat_of_int k)"
      using k(1) unfolding fl_def Let_def by (simp add: f g)
    moreover have "fl (- rat_of_int k) = Finite (- rat_of_int k)"
      using k(1) unfolding fl_def Let_def by (simp add: f g)
    ultimately show ?thesis by simp
  qed
  consider "n = 0" | "0 < n" | "n < 0" by linarith
  then show ?thesis
  proof cases
    case 1
    then show ?thesis by (simp add: fl_def)
  next
    case 2
    with assms pos [of n] show ?thesis by simp
  next
    case 3
    with assms pos [of "- n"] show ?thesis by simp
  qed
qed

section \<open>Rounding and clamping\<close>

lemma floor_half: "\<lfloor>rat_of_int n + 1 / 2\<rfloor> = n"
  by linarith

lemma floor_half_mono: "x \<le> y \<Longrightarrow> \<lfloor>x + 1 / 2 :: rat\<rfloor> \<le> \<lfloor>y + 1 / 2\<rfloor>"
  by (intro floor_mono) simp


text \<open>
  The rounding of doubles shows in the scores. With the fuzzy weight \<^verbatim>\<open>0.7\<close> of
  the autocomplete preset a fuzzy score of 85 gives 59: the double \<^verbatim>\<open>0.7\<close> lies
  below seven tenths, and so does the product below 59.5. Normalised strings of
  length 40 at distance 17 have the similarity 57: the quotient \<^verbatim>\<open>23 / 40\<close> and
  then the product are rounded to a double below 57.5.
\<close>

lemma doubles_in_the_scores:
  "calculateWeightedScore
     \<lparr> exactMatch = Finite 0, fuzzyMatch = Finite 85, aliasMatch = Finite 0, weighted = Finite 0 \<rparr>
     (DEFAULT_MATCH_CONFIG\<lparr> fuzzyMatchWeight := fl (7 / 10) \<rparr>) = Finite 59
   \<and> calculateWeightedScore
     \<lparr> exactMatch = Finite 0, fuzzyMatch = Finite 75, aliasMatch = Finite 0, weighted = Finite 0 \<rparr>
     (DEFAULT_MATCH_CONFIG\<lparr> fuzzyMatchWeight := fl (7 / 10) \<rparr>) = Finite 53
   \<and> Math_max (Finite 0)
       (Math_round (js_mult (js_div (Finite (40 - 17)) (Finite 40)) (Finite 100))) = Finite 57
   \<and> fl (1 / 10) = Finite (3602879701896397 / 36028797018963968)"
  by code_simp

section \<open>The confidence scorer\<close>


text \<open>
  When neither string is empty, \<open>weighted\<close> is \<open>calculateWeightedScore\<close> of the three
  sub-scores; on the early return for an empty query or name every field is 0.
\<close>

lemma weighted_calculateConfidence:
  "q \<noteq> [] \<Longrightarrow> t \<noteq> [] \<Longrightarrow>
   weighted (calculateConfidence q t al config) =
     calculateWeightedScore (calculateConfidence q t al config) config"
  by (simp add: calculateConfidence_def calculateWeightedScore_def Let_def)

lemma calculateConfidence_empty:
  "q = [] \<or> t = [] \<Longrightarrow>
   calculateConfidence q t al config =
     \<lparr> exactMatch = Finite 0, fuzzyMatch = Finite 0, aliasMatch = Finite 0, weighted = Finite 0 \<rparr>"
  by (auto simp: calculateConfidence_def Let_def)




text \<open>Every sub-score is an integer from 0 to 100.\<close>

lemma is_scoreI: "0 \<le> k \<Longrightarrow> k \<le> 100 \<Longrightarrow> is_score (Finite (rat_of_int k))"
  by (simp add: is_score_def)

lemma is_scoreE:
  assumes "is_score x"
  obtains k where "x = Finite (rat_of_int k)" "0 \<le> k" "k \<le> 100"
proof -
  from assms obtain r where r: "x = Finite r" "r = rat_of_int \<lfloor>r\<rfloor>" "0 \<le> r" "r \<le> 100"
    by (auto simp: is_score_def split: js_number.splits)
  from r(3,4) have "0 \<le> \<lfloor>r\<rfloor>" "\<lfloor>r\<rfloor> \<le> 100" by (simp_all add: floor_le_iff)
  with r(1,2) that show thesis by metis
qed



text \<open>What is at most 100 is a score once rounded and raised to 0.\<close>

lemma score_of_le_100:
  assumes "js_le p (Finite 100)"
  shows "is_score (Math_max (Finite 0) (Math_round p))"
proof (cases p)
  case (Finite x)
  with assms have "x \<le> 100" by simp
  then have "\<lfloor>x + 1 / 2\<rfloor> \<le> 100" using floor_half_mono [of x 100] floor_half [of 100] by simp
  then show ?thesis
    using Finite by (cases "0 \<le> \<lfloor>x + 1 / 2\<rfloor>") (auto simp: Math_max_def intro: is_scoreI is_scoreI [of 0, simplified])
next
  case NegInf
  then show ?thesis using is_scoreI [of 0] by (simp add: Math_max_def)
qed (use assms in simp_all)

text \<open>Whatever is not \<open>NaN\<close> is a score once rounded and clamped.\<close>

lemma score_of_clamped:
  assumes "p \<noteq> NaN"
  shows "is_score (Math_min (Finite 100) (Math_max (Finite 0) (Math_round p)))"
proof (cases p)
  case (Finite x)
  show ?thesis
  proof (cases "x \<le> 100")
    case True
    then have "is_score (Math_max (Finite 0) (Math_round p))"
      using score_of_le_100 [of p] Finite by simp
    then show ?thesis
      by (auto simp: Math_min_def is_score_def split: js_number.splits)
  next
    case False
    then have "100 \<le> \<lfloor>x + 1 / 2\<rfloor>" using floor_half_mono [of 100 x] floor_half [of 100] by simp
    then show ?thesis
      using Finite is_scoreI [of 100] by (auto simp: Math_min_def Math_max_def)
  qed
next
  case PosInf
  then show ?thesis using is_scoreI [of 100] by (simp add: Math_min_def Math_max_def)
next
  case NegInf
  then show ?thesis using is_scoreI [of 0] by (simp add: Math_min_def Math_max_def)
qed (use assms in simp)






lemma calculateWeightedScore_NaN:
  "calculateWeightedScore b config = NaN
     \<longleftrightarrow> js_mult (fst (bestApplicable b config)) (snd (bestApplicable b config)) = NaN"
proof -
  let ?p = "js_mult (fst (bestApplicable b config)) (snd (bestApplicable b config))"
  have eq: "calculateWeightedScore b config
              = Math_min (Finite 100) (Math_max (Finite 0) (Math_round ?p))"
    unfolding calculateWeightedScore_def bestApplicable_def Let_def by (simp split: prod.splits)
  show ?thesis
  proof (cases "?p = NaN")
    case True
    then show ?thesis unfolding eq by (simp add: Math_max_def Math_min_def)
  next
    case False
    from score_of_clamped [OF this] False show ?thesis
      unfolding eq by (auto simp: is_score_def)
  qed
qed

lemma calculateWeightedScore_score:
  "calculateWeightedScore b config \<noteq> NaN \<Longrightarrow> is_score (calculateWeightedScore b config)"
proof -
  let ?p = "js_mult (fst (bestApplicable b config)) (snd (bestApplicable b config))"
  assume "calculateWeightedScore b config \<noteq> NaN"
  then have p: "?p \<noteq> NaN" by (simp add: calculateWeightedScore_NaN)
  have eq: "calculateWeightedScore b config
              = Math_min (Finite 100) (Math_max (Finite 0) (Math_round ?p))"
    unfolding calculateWeightedScore_def bestApplicable_def Let_def by (simp split: prod.splits)
  from score_of_clamped [OF p] show ?thesis unfolding eq .
qed

lemma weighted_score:
  "weighted (calculateConfidence q t al config) \<noteq> NaN \<Longrightarrow>
   is_score (weighted (calculateConfidence q t al config))"
proof (cases "q \<noteq> [] \<and> t \<noteq> []")
  case True
  assume "weighted (calculateConfidence q t al config) \<noteq> NaN"
  with True show ?thesis
    using calculateWeightedScore_score [of "calculateConfidence q t al config" config]
    by (simp add: weighted_calculateConfidence)
next
  case False
  then have "q = [] \<or> t = []" by simp
  from calculateConfidence_empty [OF this] show ?thesis using is_scoreI [of 0] by simp
qed




text \<open>
  Claim C7. The query \<open>Beatles\<close> against the candidate named \<open>The Beatles\<close> with the
  aliases \<open>Beatles\<close> and \<open>Fab Four\<close>, under the default configuration: the two names
  normalise to the same string (the leading article goes), \<open>exactMatch\<close> is 100 and the
  weighted confidence is at least 90; \<open>matchArtists\<close> returns the candidate with
  confidence 100.
\<close>

theorem beatles_scenario:
  "normalizeString ''The Beatles'' = normalizeString ''Beatles''
   \<and> exactMatch (calculateConfidence ''Beatles'' ''The Beatles''
        (Some [''Beatles'', ''Fab Four'']) DEFAULT_MATCH_CONFIG) = Finite 100
   \<and> js_le (Finite 90) (weighted (calculateConfidence ''Beatles'' ''The Beatles''
        (Some [''Beatles'', ''Fab Four'']) DEFAULT_MATCH_CONFIG))
   \<and> map confidence (matchArtists DEFAULT_MATCH_CONFIG ''Beatles''
        [\<lparr> id_e = ''1'', name_e = ''The Beatles'', aliases = Some [''Beatles'', ''Fab Four''] \<rparr>])
       = [Finite 100]"
  by code_simp

section \<open>Filtering, ordering and truncation in scoreEntities\<close>

lemma slice0_take: "\<exists>k. slice0 n xs = take k xs"
proof (cases n)
  case NaN
  then have "slice0 n xs = take 0 xs" by (simp add: slice0_def)
  then show ?thesis ..
next
  case PosInf
  then have "slice0 n xs = take (length xs) xs" by (simp add: slice0_def)
  then show ?thesis ..
next
  case NegInf
  then have "slice0 n xs = take 0 xs" by (simp add: slice0_def)
  then show ?thesis ..
next
  case (Finite x)
  then show ?thesis unfolding slice0_def Let_def by auto
qed

lemma slice0_nat: "slice0 (Finite (rat_of_nat n)) xs = take n xs"
  unfolding slice0_def Let_def by simp

lemma slice0_Nil: "slice0 n [] = []"
  using slice0_take [of n "[]"] by auto

text \<open>
  An entry that passes the filter has a weighted score that is not \<open>NaN\<close>, so an
  integer from 0 to 100. On such entries the difference of two scores is exact, and
  the comparator orders by decreasing score.
\<close>

lemma qualifying_weighted:
  assumes "p \<in> set (qualifying query entities config)"
  shows "is_score (weighted (snd p))"
proof -
  from assms have le: "js_le (minConfidence config) (weighted (snd p))"
    and "\<exists>entity\<in>set entities.
           p = (entity, calculateConfidence query (name_e entity) (aliases entity) config)"
    unfolding qualifying_def by auto
  then obtain entity where "entity \<in> set entities"
    and pe: "p = (entity, calculateConfidence query (name_e entity) (aliases entity) config)"
    by blast
  from pe have p: "snd p = calculateConfidence query (name_e entity) (aliases entity) config"
    by simp
  from le have "weighted (snd p) \<noteq> NaN" by (cases "minConfidence config") auto
  then show ?thesis
    using weighted_score [of query "name_e entity" "aliases entity" config] unfolding p by simp
qed

lemma is_score_value: "is_score x \<Longrightarrow> x = Finite (number_value x)"
  by (auto simp: is_score_def number_value_def split: js_number.splits)

lemma comparator_consistent:
  assumes "is_score a" "is_score b"
  shows "js_less (Finite 0) (js_sub b a) \<longleftrightarrow> \<not> - number_value a \<le> - number_value b"
proof -
  from assms(1) obtain ka where a: "a = Finite (rat_of_int ka)" "0 \<le> ka" "ka \<le> 100"
    by (rule is_scoreE)
  from assms(2) obtain kb where b: "b = Finite (rat_of_int kb)" "0 \<le> kb" "kb \<le> 100"
    by (rule is_scoreE)
  have "\<bar>kb - ka\<bar> < 2 ^ 53" using a(2,3) b(2,3) by simp
  from fl_of_int [OF this] have "js_sub b a = Finite (rat_of_int (kb - ka))"
    unfolding a b by simp
  then show ?thesis unfolding a b by (auto simp: number_value_def)
qed

lemma insert_by_insort_key:
  assumes "\<forall>y\<in>set ys. js_less (Finite 0) (comparefn x y) \<longleftrightarrow> \<not> f x \<le> f y"
  shows "insert_by comparefn x ys = insort_key f x ys"
  using assms by (induction ys) auto

text \<open>
  With a comparator that is the order of a key, \<^verbatim>\<open>sort\<close> is the stable sort by
  that key.
\<close>

lemma Array_sort_sort_key:
  assumes "\<forall>x\<in>set xs. \<forall>y\<in>set xs. js_less (Finite 0) (comparefn x y) \<longleftrightarrow> \<not> f x \<le> f y"
  shows "Array_sort comparefn xs = sort_key f xs"
  using assms
proof (induction xs)
  case Nil
  then show ?case by (simp add: Array_sort_def)
next
  case (Cons x xs)
  then have ih: "Array_sort comparefn xs = sort_key f xs" by simp
  have "\<forall>y\<in>set (sort_key f xs). js_less (Finite 0) (comparefn x y) \<longleftrightarrow> \<not> f x \<le> f y"
    using Cons.prems by simp
  from insert_by_insort_key [where comparefn = comparefn and f = f and x = x
          and ys = "sort_key f xs", OF this] ih
  show ?case
    by (simp add: Array_sort_def sort_key_def)
qed

lemma scoreEntities_eq:
  assumes "query \<noteq> []"
  shows "scoreEntities query entities config =
     slice0 (maxResults config)
       (sort_key (\<lambda>item. - number_value (weighted (snd item))) (qualifying query entities config))"
proof (cases "entities = []")
  case True
  then show ?thesis by (simp add: scoreEntities_def qualifying_def slice0_Nil)
next
  case False
  let ?kept = "qualifying query entities config"
  have "\<forall>x\<in>set ?kept. \<forall>y\<in>set ?kept.
          js_less (Finite 0) (js_sub (weighted (snd y)) (weighted (snd x)))
            \<longleftrightarrow> \<not> - number_value (weighted (snd x)) \<le> - number_value (weighted (snd y))"
    using comparator_consistent qualifying_weighted by blast
  from Array_sort_sort_key [where comparefn = "\<lambda>a b. js_sub (weighted (snd b)) (weighted (snd a))"
          and f = "\<lambda>item. - number_value (weighted (snd item))", OF this]
  show ?thesis
    using assms False
    by (simp add: scoreEntities_def qualifying_def meetsConfidenceThreshold_def)
qed

lemma scoreEntities_take:
  "\<exists>k. scoreEntities query entities config =
     take k (sort_key (\<lambda>item. - number_value (weighted (snd item))) (qualifying query entities config))"
proof (cases "query = []")
  case True
  then have "scoreEntities query entities config
      = take 0 (sort_key (\<lambda>item. - number_value (weighted (snd item))) (qualifying query entities config))"
    by (simp add: scoreEntities_def)
  then show ?thesis by blast
next
  case False
  then show ?thesis using scoreEntities_eq [OF False] slice0_take by metis
qed

text \<open>
  What the first \<open>k\<close> elements of a stable sort by decreasing \<open>f\<close> are: elements of the
  input, in decreasing order, every tie in input order, all of the input when \<open>k\<close>
  reaches its length, and no better element left behind.
\<close>

lemma take_sorted_key_props:
  fixes f :: "'a \<Rightarrow> rat"
  defines "full \<equiv> \<lambda>xs. sort_key (\<lambda>x. - f x) xs"
  shows "set (take k (full xs)) \<subseteq> set xs"
    and "sorted_wrt (\<lambda>a b. f a \<ge> f b) (take k (full xs))"
    and "\<exists>rest. filter (\<lambda>p. f p = w) xs = filter (\<lambda>p. f p = w) (take k (full xs)) @ rest"
    and "length xs \<le> k \<Longrightarrow> mset (take k (full xs)) = mset xs"
    and "\<forall>r\<in>set (take k (full xs)). \<forall>p \<in># mset xs - mset (take k (full xs)). f p \<le> f r"
proof -
  show "set (take k (full xs)) \<subseteq> set xs"
    using set_take_subset [of k "full xs"] by (simp add: full_def)
  have s: "sorted (map (\<lambda>x. - f x) (full xs))" by (simp add: full_def)
  then have sw: "sorted_wrt (\<lambda>a b. f a \<ge> f b) (full xs)"
    by (simp add: sorted_wrt_map)
  have split: "full xs = take k (full xs) @ drop k (full xs)" by simp
  from sw show "sorted_wrt (\<lambda>a b. f a \<ge> f b) (take k (full xs))"
    using sorted_wrt_append [of "\<lambda>a b. f a \<ge> f b" "take k (full xs)" "drop k (full xs)"] by simp
  have "filter (\<lambda>p. - f p = - w) (full xs) = filter (\<lambda>p. - f p = - w) xs"
    unfolding full_def by (rule sort_key_stable)
  then have "filter (\<lambda>p. f p = w) xs = filter (\<lambda>p. f p = w) (take k (full xs) @ drop k (full xs))"
    by simp
  then show "\<exists>rest. filter (\<lambda>p. f p = w) xs = filter (\<lambda>p. f p = w) (take k (full xs)) @ rest"
    by (metis filter_append)
  show "length xs \<le> k \<Longrightarrow> mset (take k (full xs)) = mset xs"
    by (simp add: full_def)
  have "mset xs = mset (take k (full xs)) + mset (drop k (full xs))"
    by (metis split mset_append mset_sort full_def)
  then have rest: "mset xs - mset (take k (full xs)) = mset (drop k (full xs))" by simp
  show "\<forall>r\<in>set (take k (full xs)). \<forall>p \<in># mset xs - mset (take k (full xs)). f p \<le> f r"
    using sw sorted_wrt_append [of "\<lambda>a b. f a \<ge> f b" "take k (full xs)" "drop k (full xs)"]
    unfolding rest by simp
qed

text \<open>Selecting the entries of one weighted score, among entries with finite scores.\<close>

lemma filter_weighted:
  assumes "\<forall>p\<in>set ps. weighted (snd p) = Finite (number_value (weighted (snd p)))"
  shows "filter (\<lambda>p. weighted (snd p) = w) ps =
     (if isFinite w then filter (\<lambda>p. number_value (weighted (snd p)) = number_value w) ps else [])"
proof (cases w)
  case (Finite v)
  have "filter (\<lambda>p. weighted (snd p) = Finite v) ps
          = filter (\<lambda>p. number_value (weighted (snd p)) = v) ps"
    using assms by (intro filter_cong) (auto simp: number_value_def)
  then show ?thesis using Finite by (simp add: isFinite_def number_value_def)
qed (use assms in \<open>auto simp: isFinite_def filter_empty_conv\<close>)

text \<open>
  Claim C2, as stated, fails: the result is cut to \<open>maxResults\<close> entries, so a
  candidate that meets the threshold can be missing. Two candidates with weighted
  score 100 and \<open>maxResults = 1\<close>: only the first is returned.
\<close>

theorem scoreEntities_truncates:
  "scoreEntities ''Beatles''
     [\<lparr> id_e = ''1'', name_e = ''The Beatles'', aliases = Some [''Beatles'', ''Fab Four''] \<rparr>,
      \<lparr> id_e = ''2'', name_e = ''Beatles'', aliases = None \<rparr>]
     (DEFAULT_MATCH_CONFIG\<lparr> maxResults := Finite 1 \<rparr>)
   = [(\<lparr> id_e = ''1'', name_e = ''The Beatles'', aliases = Some [''Beatles'', ''Fab Four''] \<rparr>,
       \<lparr> exactMatch = Finite 100, fuzzyMatch = Finite 100, aliasMatch = Finite 100,
         weighted = Finite 100 \<rparr>)]
   \<and> meetsConfidenceThreshold
        (calculateConfidence ''Beatles'' ''Beatles'' None
           (DEFAULT_MATCH_CONFIG\<lparr> maxResults := Finite 1 \<rparr>))
        (DEFAULT_MATCH_CONFIG\<lparr> maxResults := Finite 1 \<rparr>)"
  by code_simp

text \<open>
  Claim C2, amended. For every non-empty query, entity list and configuration, let
  \<open>kept\<close> be the input entities whose weighted score meets \<open>minConfidence\<close>, in input
  order, and \<open>ranked\<close> the list \<open>kept\<close> sorted by non-increasing weighted score,
  entries of equal score in input order (\<open>ranked\<close> is a permutation of \<open>kept\<close>, it is
  sorted, and for each score it has the entries of that score in the order of
  \<open>kept\<close>). The result is \<^verbatim>\<open>ranked.slice(0, maxResults)\<close>: for a \<open>maxResults\<close> that is
  a natural number \<open>n\<close> it is the first \<open>n\<close> entries of \<open>ranked\<close>, all of \<open>ranked\<close> if
  there are fewer, so its length is the smaller of \<open>n\<close> and the length of \<open>kept\<close>.
  Hence every returned entry is one of \<open>kept\<close>, no entry left out has a higher
  weighted score than a returned one, and the result is sorted by non-increasing
  weighted score with entries of equal score in input order.
\<close>

theorem scoreEntities_contract:
  assumes "query \<noteq> []"
  shows "(let res = scoreEntities query entities config;
              kept = qualifying query entities config;
              ranked = sort_key (\<lambda>item. - number_value (weighted (snd item))) kept
          in res = slice0 (maxResults config) ranked
           \<and> (\<forall>n. maxResults config = Finite (rat_of_nat n)
                 \<longrightarrow> res = take n ranked \<and> length res = min n (length kept))
           \<and> mset ranked = mset kept
           \<and> sorted_wrt (\<lambda>a b. js_le (weighted (snd b)) (weighted (snd a))) ranked
           \<and> (\<forall>w. filter (\<lambda>p. weighted (snd p) = w) ranked = filter (\<lambda>p. weighted (snd p) = w) kept)
           \<and> set res \<subseteq> set kept
           \<and> (\<forall>r\<in>set res. \<forall>p \<in># mset kept - mset res. js_le (weighted (snd p)) (weighted (snd r)))
           \<and> sorted_wrt (\<lambda>a b. js_le (weighted (snd b)) (weighted (snd a))) res
           \<and> (\<forall>w. \<exists>rest. filter (\<lambda>p. weighted (snd p) = w) kept
                          = filter (\<lambda>p. weighted (snd p) = w) res @ rest))"
proof -
  let ?f = "\<lambda>p :: 'a MatchableEntity_scheme \<times> ConfidenceBreakdown. number_value (weighted (snd p))"
  let ?kept = "qualifying query entities config"
  let ?ranked = "sort_key (\<lambda>item. - ?f item) ?kept"
  let ?res = "scoreEntities query entities config"
  let ?le = "\<lambda>a b :: 'a MatchableEntity_scheme \<times> ConfidenceBreakdown.
               js_le (weighted (snd b)) (weighted (snd a))"
  have fin: "weighted (snd p) = Finite (?f p)" if "p \<in> set ?kept" for p
    using qualifying_weighted [OF that] by (rule is_score_value)
  have le: "?le a b \<longleftrightarrow> ?f a \<ge> ?f b" if "a \<in> set ?kept" "b \<in> set ?kept" for a b
    using fin [OF that(1)] fin [OF that(2)] by (metis js_le.simps(1))
  have eq: "?res = slice0 (maxResults config) ?ranked"
    using scoreEntities_eq [OF assms] .
  obtain k where res: "?res = take k ?ranked"
    using scoreEntities_take by blast
  have nat: "?res = take n ?ranked \<and> length ?res = min n (length ?kept)"
    if "maxResults config = Finite (rat_of_nat n)" for n
    unfolding eq that slice0_nat by simp
  have perm: "mset ?ranked = mset ?kept" by simp
  have set_ranked: "set ?ranked = set ?kept" by simp
  note props = take_sorted_key_props [where f = ?f and xs = ?kept]
  have sub: "set ?res \<subseteq> set ?kept" unfolding res using props(1) [of k] .
  have sorted_ranked: "sorted_wrt ?le ?ranked"
  proof -
    have "sorted_wrt (\<lambda>a b. ?f a \<ge> ?f b) (take (length ?kept) ?ranked)"
      using props(2) [of "length ?kept"] .
    then have num: "sorted_wrt (\<lambda>a b. ?f a \<ge> ?f b) ?ranked" by simp
    show ?thesis
    proof (rule sorted_wrt_mono_rel [OF _ num])
      fix a b
      assume "a \<in> set ?ranked" "b \<in> set ?ranked" "?f a \<ge> ?f b"
      with le show "?le a b" by simp
    qed
  qed
  have sorted_res: "sorted_wrt ?le ?res"
  proof -
    have num: "sorted_wrt (\<lambda>a b. ?f a \<ge> ?f b) ?res" unfolding res using props(2) [of k] .
    show ?thesis
    proof (rule sorted_wrt_mono_rel [OF _ num])
      fix a b
      assume "a \<in> set ?res" "b \<in> set ?res" "?f a \<ge> ?f b"
      with sub le show "?le a b" by blast
    qed
  qed
  have fin_kept: "\<forall>p\<in>set ?kept. weighted (snd p) = Finite (?f p)" using fin by blast
  have fin_ranked: "\<forall>p\<in>set ?ranked. weighted (snd p) = Finite (?f p)" using fin by simp
  have fin_res: "\<forall>p\<in>set ?res. weighted (snd p) = Finite (?f p)" using fin sub by blast
  have stable: "filter (\<lambda>p. weighted (snd p) = w) ?ranked = filter (\<lambda>p. weighted (snd p) = w) ?kept"
    for w
  proof -
    have "filter (\<lambda>p. - ?f p = - number_value w) ?ranked = filter (\<lambda>p. - ?f p = - number_value w) ?kept"
      by (rule sort_key_stable)
    then show ?thesis
      unfolding filter_weighted [OF fin_kept] filter_weighted [OF fin_ranked] by simp
  qed
  have ties: "\<exists>rest. filter (\<lambda>p. weighted (snd p) = w) ?kept
                  = filter (\<lambda>p. weighted (snd p) = w) ?res @ rest" for w
  proof -
    from props(3) [of "number_value w" k] obtain rest where
      "filter (\<lambda>p. ?f p = number_value w) ?kept = filter (\<lambda>p. ?f p = number_value w) ?res @ rest"
      unfolding res by blast
    then show ?thesis
      unfolding filter_weighted [OF fin_kept] filter_weighted [OF fin_res] by simp
  qed
  have best: "\<forall>r\<in>set ?res. \<forall>p \<in># mset ?kept - mset ?res. js_le (weighted (snd p)) (weighted (snd r))"
  proof (intro ballI)
    fix r p
    assume r: "r \<in> set ?res" and p: "p \<in># mset ?kept - mset ?res"
    from p have pk: "p \<in> set ?kept" by (metis in_diffD set_mset_mset)
    from r sub have rk: "r \<in> set ?kept" by blast
    from props(5) [of k] r p have "?f p \<le> ?f r" unfolding res by blast
    then show "js_le (weighted (snd p)) (weighted (snd r))" using le [OF rk pk] by simp
  qed
  from eq nat perm sorted_ranked stable sub best sorted_res ties
  show ?thesis unfolding Let_def by blast
qed

theorem scoreEntities_contract_witness:
  "''Queen'' \<noteq> []
   \<and> maxResults (DEFAULT_MATCH_CONFIG\<lparr> minConfidence := Finite 50 \<rparr>) = Finite (rat_of_nat 10)
   \<and> length (scoreEntities ''Queen''
        [\<lparr> id_e = ''1'', name_e = ''Queens'', aliases = None \<rparr>,
         \<lparr> id_e = ''2'', name_e = ''Queen'', aliases = None \<rparr>,
         \<lparr> id_e = ''3'', name_e = ''Abba'', aliases = None \<rparr>]
        (DEFAULT_MATCH_CONFIG\<lparr> minConfidence := Finite 50 \<rparr>))
       = min 10 (length (qualifying ''Queen''
        [\<lparr> id_e = ''1'', name_e = ''Queens'', aliases = None \<rparr>,
         \<lparr> id_e = ''2'', name_e = ''Queen'', aliases = None \<rparr>,
         \<lparr> id_e = ''3'', name_e = ''Abba'', aliases = None \<rparr>]
        (DEFAULT_MATCH_CONFIG\<lparr> minConfidence := Finite 50 \<rparr>)))
   \<and> set (scoreEntities ''Queen''
        [\<lparr> id_e = ''1'', name_e = ''Queens'', aliases = None \<rparr>,
         \<lparr> id_e = ''2'', name_e = ''Queen'', aliases = None \<rparr>,
         \<lparr> id_e = ''3'', name_e = ''Abba'', aliases = None \<rparr>]
        (DEFAULT_MATCH_CONFIG\<lparr> minConfidence := Finite 50 \<rparr>))
       \<subseteq> set (qualifying ''Queen''
        [\<lparr> id_e = ''1'', name_e = ''Queens'', aliases = None \<rparr>,
         \<lparr> id_e = ''2'', name_e = ''Queen'', aliases = None \<rparr>,
         \<lparr> id_e = ''3'', name_e = ''Abba'', aliases = None \<rparr>]
        (DEFAULT_MATCH_CONFIG\<lparr> minConfidence := Finite 50 \<rparr>))
   \<and> sorted_wrt (\<lambda>a b. js_le (weighted (snd b)) (weighted (snd a)))
        (scoreEntities ''Queen''
        [\<lparr> id_e = ''1'', name_e = ''Queens'', aliases = None \<rparr>,
         \<lparr> id_e = ''2'', name_e = ''Queen'', aliases = None \<rparr>,
         \<lparr> id_e = ''3'', name_e = ''Abba'', aliases = None \<rparr>]
        (DEFAULT_MATCH_CONFIG\<lparr> minConfidence := Finite 50 \<rparr>))
   \<and> map (\<lambda>item. (id_e (fst item), weighted (snd item))) (scoreEntities ''Queen''
        [\<lparr> id_e = ''1'', name_e = ''Queens'', aliases = None \<rparr>,
         \<lparr> id_e = ''2'', name_e = ''Queen'', aliases = None \<rparr>,
         \<lparr> id_e = ''3'', name_e = ''Abba'', aliases = None \<rparr>]
        (DEFAULT_MATCH_CONFIG\<lparr> minConfidence := Finite 50 \<rparr>))
       = [(''2'', Finite 100), (''1'', Finite 66)]"
proof -
  let ?es = "[\<lparr> id_e = ''1'', name_e = ''Queens'', aliases = None \<rparr>,
         \<lparr> id_e = ''2'', name_e = ''Queen'', aliases = None \<rparr>,
         \<lparr> id_e = ''3'', name_e = ''Abba'', aliases = None \<rparr>]"
  let ?c = "DEFAULT_MATCH_CONFIG\<lparr> minConfidence := Finite 50 \<rparr>"
  have q: "''Queen'' \<noteq> []" by simp
  have m: "maxResults ?c = Finite (rat_of_nat 10)" by (simp add: DEFAULT_MATCH_CONFIG_def)
  have v: "map (\<lambda>item. (id_e (fst item), weighted (snd item))) (scoreEntities ''Queen'' ?es ?c)
             = [(''2'', Finite 100), (''1'', Finite 66)]"
    by code_simp
  from scoreEntities_contract [OF q, of ?es ?c] q m v
  show ?thesis unfolding Let_def by blast
qed

section \<open>The entity matcher\<close>

lemma trim_empty_iff: "trim s = [] \<longleftrightarrow> (\<forall>c\<in>set s. isWhiteSpace c)"
proof
  assume "trim s = []"
  then have "\<forall>c\<in>set (dropWhile isWhiteSpace s). isWhiteSpace c"
    by (simp add: trim_def dropWhile_eq_Nil_conv)
  then have "dropWhile isWhiteSpace s = []"
    using hd_dropWhile [of isWhiteSpace s] hd_in_set [of "dropWhile isWhiteSpace s"] by blast
  then show "\<forall>c\<in>set s. isWhiteSpace c" by (simp add: dropWhile_eq_Nil_conv)
next
  assume "\<forall>c\<in>set s. isWhiteSpace c"
  then have "dropWhile isWhiteSpace s = []" using dropWhile_eq_Nil_conv by blast
  then show "trim s = []" unfolding trim_def by (simp only: rev.simps dropWhile.simps)
qed

lemma startsWith_iff: "startsWith s sub \<longleftrightarrow> (\<exists>post. s = sub @ post)"
proof
  assume "startsWith s sub"
  then have "s = sub @ drop (length sub) s"
    unfolding startsWith_def by (metis append_take_drop_id)
  then show "\<exists>post. s = sub @ post" ..
next
  assume "\<exists>post. s = sub @ post"
  then show "startsWith s sub" unfolding startsWith_def by auto
qed

text \<open>\<^verbatim>\<open>includes\<close> is the substring test.\<close>

lemma includes_str_iff: "includes_str s sub \<longleftrightarrow> (\<exists>pre post. s = pre @ sub @ post)"
proof (induction s)
  case Nil
  then show ?case by auto
next
  case (Cons c cs)
  show ?case
  proof
    assume "includes_str (c # cs) sub"
    then consider "startsWith (c # cs) sub" | "includes_str cs sub" by auto
    then show "\<exists>pre post. c # cs = pre @ sub @ post"
    proof cases
      case 1
      then obtain post where "c # cs = [] @ sub @ post" by (auto simp: startsWith_iff)
      then show ?thesis by blast
    next
      case 2
      then obtain pre post where "cs = pre @ sub @ post" using Cons.IH by blast
      then have "c # cs = (c # pre) @ sub @ post" by simp
      then show ?thesis by blast
    qed
  next
    assume "\<exists>pre post. c # cs = pre @ sub @ post"
    then obtain pre post where eq: "c # cs = pre @ sub @ post" by blast
    show "includes_str (c # cs) sub"
    proof (cases pre)
      case Nil
      with eq have "startsWith (c # cs) sub" by (auto simp: startsWith_iff)
      then show ?thesis by simp
    next
      case (Cons p pre')
      with eq have "cs = pre' @ sub @ post" by simp
      then have "includes_str cs sub" using Cons.IH by blast
      then show ?thesis by simp
    qed
  qed
qed

lemma scoreEntities_subset:
  "set (scoreEntities query entities config)
     \<subseteq> (\<lambda>entity. (entity, calculateConfidence query (name_e entity) (aliases entity) config)) ` set entities"
proof -
  obtain k where "scoreEntities query entities config =
     take k (sort_key (\<lambda>item. - number_value (weighted (snd item))) (qualifying query entities config))"
    using scoreEntities_take by blast
  then have "set (scoreEntities query entities config) \<subseteq> set (qualifying query entities config)"
    using set_take_subset [of k "sort_key (\<lambda>item. - number_value (weighted (snd item))) (qualifying query entities config)"]
    by simp
  then show ?thesis unfolding qualifying_def by auto
qed

lemma filterByCity_blank:
  "trim cf \<noteq> [] \<Longrightarrow>
   filterByCity venues (Some cf) =
     filter (\<lambda>venue. \<exists>pre post. toLowerCase (city venue) = pre @ toLowerCase cf @ post) venues"
  unfolding filterByCity_def by (simp add: includes_str_iff)

text \<open>
  Claim C8, as stated, fails: the filter is applied only when \<^verbatim>\<open>cityFilter.trim()\<close>
  is not empty. With the filter \<open>' '\<close> (one space, not empty) nothing is filtered,
  and a venue in Boston, whose city holds no space, is returned.
\<close>

theorem matchVenues_blank_city_filter:
  "matchVenues DEFAULT_MATCH_CONFIG ''Fenway''
     [\<lparr> id_e = ''1'', name_e = ''Fenway'', aliases = None, city = ''Boston'' \<rparr>] (Some '' '')
   = [\<lparr> id_m = ''1'', name_m = ''Fenway'', confidence = Finite 100,
        breakdown = \<lparr> exactMatch = Finite 100, fuzzyMatch = Finite 100,
                      aliasMatch = Finite 0, weighted = Finite 100 \<rparr>,
        city_m = ''Boston'' \<rparr>]
   \<and> '' '' \<noteq> []
   \<and> \<not> includes_str (toLowerCase ''Boston'') (toLowerCase '' '')"
  by code_simp

text \<open>
  Claim C8, amended. For every query, venue list and city filter that is not blank
  (not empty after trimming), every venue that \<open>matchVenues\<close> returns has a city that
  contains the filter as a substring, case ignored, and comes from a candidate with
  that city; the result is the one obtained from the candidates that pass this test
  alone, with no filter: the others are removed before scoring.
\<close>

theorem matchVenues_city_filter:
  assumes "trim cityFilter \<noteq> []"
  shows "(\<forall>r\<in>set (matchVenues config query venues (Some cityFilter)).
            (\<exists>pre post. toLowerCase (city_m r) = pre @ toLowerCase cityFilter @ post)
          \<and> (\<exists>venue\<in>set venues. city venue = city_m r \<and> id_e venue = id_m r \<and> name_e venue = name_m r))
       \<and> matchVenues config query venues (Some cityFilter)
           = matchVenues config query
               (filter (\<lambda>venue. \<exists>pre post. toLowerCase (city venue) = pre @ toLowerCase cityFilter @ post) venues)
               None"
proof -
  let ?P = "\<lambda>venue. \<exists>pre post. toLowerCase (city venue) = pre @ toLowerCase cityFilter @ post"
  have f: "filterByCity venues (Some cityFilter) = filter ?P venues"
    using filterByCity_blank [OF assms] .
  have eq: "matchVenues config query venues (Some cityFilter)
              = matchVenues config query (filter ?P venues) None"
  proof (cases "trim query = [] \<or> venues = []")
    case True
    then show ?thesis by (auto simp: matchVenues_def)
  next
    case False
    show ?thesis
    proof (cases "filter ?P venues = []")
      case True
      with False f show ?thesis by (simp add: matchVenues_def scoreEntities_def)
    next
      case nonempty: False
      with False f show ?thesis by (simp add: matchVenues_def filterByCity_def)
    qed
  qed
  have "\<exists>pre post. toLowerCase (city_m r) = pre @ toLowerCase cityFilter @ post"
       "\<exists>venue\<in>set venues. city venue = city_m r \<and> id_e venue = id_m r \<and> name_e venue = name_m r"
    if r: "r \<in> set (matchVenues config query venues (Some cityFilter))" for r
  proof -
    from r have nontriv: "\<not> (trim query = [] \<or> venues = [])"
      by (auto simp: matchVenues_def)
    with r f obtain venue conf where
      in_sc: "(venue, conf) \<in> set (scoreEntities (trim query) (filter ?P venues) config)"
      and r_eq: "r = \<lparr> id_m = id_e venue, name_m = name_e venue,
                       confidence = weighted conf, breakdown = conf, city_m = city venue \<rparr>"
      by (auto simp: matchVenues_def)
    from in_sc scoreEntities_subset [of "trim query" "filter ?P venues" config]
    have v: "venue \<in> set (filter ?P venues)" by auto
    then show "\<exists>pre post. toLowerCase (city_m r) = pre @ toLowerCase cityFilter @ post"
      using r_eq by simp
    from v show "\<exists>venue\<in>set venues. city venue = city_m r \<and> id_e venue = id_m r \<and> name_e venue = name_m r"
      using r_eq by auto
  qed
  with eq show ?thesis by blast
qed

theorem matchVenues_city_filter_witness:
  "trim ''bos'' \<noteq> []
   \<and> matchVenues DEFAULT_MATCH_CONFIG ''Arena''
        [\<lparr> id_e = ''1'', name_e = ''Arena'', aliases = None, city = ''Boston'' \<rparr>,
         \<lparr> id_e = ''2'', name_e = ''Arena'', aliases = None, city = ''London'' \<rparr>] (Some ''bos'')
     = matchVenues DEFAULT_MATCH_CONFIG ''Arena''
        (filter (\<lambda>venue. \<exists>pre post. toLowerCase (city venue) = pre @ toLowerCase ''bos'' @ post)
          [\<lparr> id_e = ''1'', name_e = ''Arena'', aliases = None, city = ''Boston'' \<rparr>,
           \<lparr> id_e = ''2'', name_e = ''Arena'', aliases = None, city = ''London'' \<rparr>]) None
   \<and> map city_m (matchVenues DEFAULT_MATCH_CONFIG ''Arena''
        [\<lparr> id_e = ''1'', name_e = ''Arena'', aliases = None, city = ''Boston'' \<rparr>,
         \<lparr> id_e = ''2'', name_e = ''Arena'', aliases = None, city = ''London'' \<rparr>] (Some ''bos''))
     = [''Boston'']"
proof -
  let ?vs = "[\<lparr> id_e = ''1'', name_e = ''Arena'', aliases = None, city = ''Boston'' \<rparr>,
         \<lparr> id_e = ''2'', name_e = ''Arena'', aliases = None, city = ''London'' \<rparr>]"
  have t: "trim ''bos'' \<noteq> []" by code_simp
  have v: "map city_m (matchVenues DEFAULT_MATCH_CONFIG ''Arena'' ?vs (Some ''bos'')) = [''Boston'']"
    by code_simp
  from matchVenues_city_filter [OF t, of DEFAULT_MATCH_CONFIG "''Arena''" ?vs] t v
  show ?thesis by blast
qed

text \<open>
  Claim C9. For every configuration, \<open>matchArtists\<close> and \<open>matchVenues\<close> return the
  empty list when the query is empty or consists of white space only, or when the
  candidate list is empty. Both are total functions: on these inputs the methods
  return at their first statement, before anything that could throw.
\<close>

theorem matchers_empty_input:
  "((\<forall>c\<in>set query. isWhiteSpace c) \<or> artists = [] \<longrightarrow> matchArtists config query artists = [])
 \<and> ((\<forall>c\<in>set query. isWhiteSpace c) \<or> venues = [] \<longrightarrow> matchVenues config query venues cityFilter = [])"
  by (simp add: matchArtists_def matchVenues_def trim_empty_iff)

theorem matchers_empty_input_witness:
  "matchArtists DEFAULT_MATCH_CONFIG ''  '' [\<lparr> id_e = ''1'', name_e = ''Queen'', aliases = None \<rparr>] = []
   \<and> matchArtists DEFAULT_MATCH_CONFIG ''Queen'' [] = []
   \<and> matchVenues DEFAULT_MATCH_CONFIG ''''
        [\<lparr> id_e = ''1'', name_e = ''Arena'', aliases = None, city = ''Boston'' \<rparr>] (Some ''Boston'') = []
   \<and> matchVenues DEFAULT_MATCH_CONFIG ''Arena'' [] None = []"
proof -
  have w: "\<forall>c\<in>set ''  ''. isWhiteSpace c" by code_simp
  have e: "\<forall>c\<in>set ''''. isWhiteSpace c" by simp
  from matchers_empty_input [of "''  ''" "[\<lparr> id_e = ''1'', name_e = ''Queen'', aliases = None \<rparr>]"
              DEFAULT_MATCH_CONFIG "[]" None]
       matchers_empty_input [of "''Queen''" "[]" DEFAULT_MATCH_CONFIG "[]" None]
       matchers_empty_input [of "''''" "[]" DEFAULT_MATCH_CONFIG
              "[\<lparr> id_e = ''1'', name_e = ''Arena'', aliases = None, city = ''Boston'' \<rparr>]" "Some ''Boston''"]
       matchers_empty_input [of "''Arena''" "[]" DEFAULT_MATCH_CONFIG "[]" None]
       w e
  show ?thesis by blast
qed

section \<open>Similarity of a string with itself and with the empty string\<close>

text \<open>
  Claim C4, as stated, fails on both similarity functions. The one of
  \<^verbatim>\<open>levenshtein.ts\<close> first returns 0 when either input is empty, so two empty
  strings score 0, not 100. The one of \<^verbatim>\<open>text-normalizer.ts\<close> compares the
  normalised inputs first, so the empty string and a string of one space, exactly one
  of which is empty, score 100, not 0.
\<close>

theorem similarity_empty_inputs:
  "calculateSimilarity '''' '''' = Finite 0 \<and> calculateSimilarity_tn '''' '' '' = Finite 100"
  by code_simp

text \<open>
  Claim C4, amended. \<open>calculateSimilarity\<close> of \<^verbatim>\<open>levenshtein.ts\<close> returns 100 on
  \<open>(s, s)\<close> for every non-empty \<open>s\<close>, and 0 whenever at least one input is the empty
  string, also when both are. \<open>calculateSimilarity\<close> of \<^verbatim>\<open>text-normalizer.ts\<close>
  returns 100 on \<open>(s, s)\<close> for every \<open>s\<close>, the empty string included (which normalises
  to itself), and 0 whenever exactly one of the two inputs is empty after
  normalisation.
\<close>

theorem similarity_identical_and_empty:
  "(s \<noteq> [] \<longrightarrow> calculateSimilarity s s = Finite 100)
   \<and> (a = [] \<or> b = [] \<longrightarrow> calculateSimilarity a b = Finite 0)
   \<and> calculateSimilarity_tn s s = Finite 100
   \<and> normalizeForMatching [] = []
   \<and> ((normalizeForMatching a = []) \<noteq> (normalizeForMatching b = [])
        \<longrightarrow> calculateSimilarity_tn a b = Finite 0)"
proof -
  have n: "normalizeForMatching [] = []" by code_simp
  have "calculateSimilarity_tn a b = Finite 0"
    if "(normalizeForMatching a = []) \<noteq> (normalizeForMatching b = [])"
    using that unfolding calculateSimilarity_tn_def Let_def by auto
  with n show ?thesis
    by (auto simp: calculateSimilarity_def calculateSimilarity_tn_def Let_def)
qed

theorem similarity_identical_and_empty_witness:
  "calculateSimilarity ''Queen'' ''Queen'' = Finite 100
   \<and> calculateSimilarity '''' ''Queen'' = Finite 0
   \<and> calculateSimilarity ''Queen'' '''' = Finite 0
   \<and> calculateSimilarity_tn ''Queen'' ''Queen'' = Finite 100
   \<and> calculateSimilarity_tn '''' '''' = Finite 100
   \<and> calculateSimilarity_tn '''' ''test'' = Finite 0
   \<and> calculateSimilarity_tn ''test'' '''' = Finite 0"
proof -
  have q: "''Queen'' \<noteq> []" by simp
  have t: "(normalizeForMatching '''' = []) \<noteq> (normalizeForMatching ''test'' = [])" by code_simp
  have t': "(normalizeForMatching ''test'' = []) \<noteq> (normalizeForMatching '''' = [])" by code_simp
  from similarity_identical_and_empty [of "''Queen''" "''''" "''Queen''"]
       similarity_identical_and_empty [of "''''" "''Queen''" "''''"]
       similarity_identical_and_empty [of "''''" "''''" "''test''"]
       similarity_identical_and_empty [of "''''" "''test''" "''''"]
       q t t'
  show ?thesis by blast
qed

section \<open>The LRU cache\<close>

lemma spin_free: "key \<notin> set lck \<Longrightarrow> spin lck key = Some ()"
  by (subst spin.simps) simp

lemma Map_get_Map_set_same: "Map_get (Map_set key e m) key = Some e"
  unfolding Map_get_def by (induction m) auto




lemma Map_has_iff: "Map_has m key \<longleftrightarrow> Map_get m key \<noteq> None"
  unfolding Map_has_def Map_get_def by (simp add: map_of_eq_None_iff)

lemma Set_delete_absent: "key \<notin> set (Set_delete key xs)"
  unfolding Set_delete_def by simp

lemma updateSize_sel [simp]:
  "cache (updateSize s) = cache s" "accessOrder (updateSize s) = accessOrder s"
  "lock (updateSize s) = lock s" "config_lru (updateSize s) = config_lru s"
  "evictions (metrics_lru (updateSize s)) = evictions (metrics_lru s)"
  unfolding updateSize_def by simp_all

lemma recordHit_sel [simp]:
  "cache (recordHit s) = cache s" "accessOrder (recordHit s) = accessOrder s"
  "lock (recordHit s) = lock s" "config_lru (recordHit s) = config_lru s"
  "evictions (metrics_lru (recordHit s)) = evictions (metrics_lru s)"
  unfolding recordHit_def updateHitRate_def by (simp_all add: Let_def)

lemma recordMiss_sel [simp]:
  "cache (recordMiss s) = cache s" "accessOrder (recordMiss s) = accessOrder s"
  "lock (recordMiss s) = lock s" "config_lru (recordMiss s) = config_lru s"
  "evictions (metrics_lru (recordMiss s)) = evictions (metrics_lru s)"
  unfolding recordMiss_def updateHitRate_def by (simp_all add: Let_def)

lemma evictLRU_sel [simp]:
  "lock (evictLRU s) = lock s" "config_lru (evictLRU s) = config_lru s"
  unfolding evictLRU_def by (simp_all split: list.splits)

lemma set_lru_entry:
  "Map_get (cache (set_lru now key v ttl s)) key = Some (entry_of now v ttl (defaultTTL (config_lru s)))"
  unfolding set_lru_def entry_of_def Let_def
  by (cases ttl) (simp_all add: Map_get_Map_set_same)

lemma set_lru_lock: "key \<notin> set (lock (set_lru now key v ttl s))"
  unfolding set_lru_def Let_def by (simp add: Set_delete_absent)

lemma get_lru_present:
  assumes "key \<notin> set (lock s)" and "Map_get (cache s) key = Some entry"
  shows "\<exists>s'. get_lru now key s = Some (if isExpired now entry then None else Some (value_c entry), s')"
  using assms unfolding get_lru_def by (simp add: spin_free)

lemma get_lru_absent:
  assumes "key \<notin> set (lock s)" and "Map_get (cache s) key = None"
  shows "get_lru now key s = Some (None, recordMiss s)"
  using assms unfolding get_lru_def by (simp add: spin_free)































section \<open>Eviction\<close>

lemma keys_Map_set_new: "key \<notin> set (map fst m) \<Longrightarrow> map fst (Map_set key e m) = map fst m @ [key]"
  by (induction m) auto

lemma keys_Map_delete_hd:
  "map fst m = k0 # ks \<Longrightarrow> k0 \<notin> set ks \<Longrightarrow> map fst (Map_delete k0 m) = ks"
proof -
  assume m: "map fst m = k0 # ks" and d: "k0 \<notin> set ks"
  have "map fst (filter (\<lambda>p. fst p \<noteq> k0) m) = filter (\<lambda>k. k \<noteq> k0) (map fst m)"
    by (induction m) auto
  also have "\<dots> = filter (\<lambda>k. k \<noteq> k0) ks" using m by simp
  also have "\<dots> = ks" using d by (induction ks) auto
  finally show ?thesis unfolding Map_delete_def .
qed

lemma Set_delete_hd: "k0 \<notin> set ks \<Longrightarrow> Set_delete k0 (k0 # ks) = ks"
  unfolding Set_delete_def by (induction ks) auto

text \<open>A new key below capacity: stored at the end, nothing evicted.\<close>

lemma set_lru_new_key_below_capacity:
  assumes "map fst (cache s) = ks" and "accessOrder s = ks" and "key \<notin> set ks"
    and "int (length ks) < maxSize (config_lru s)"
  shows "map fst (cache (set_lru now key v ttl s)) = ks @ [key]
       \<and> accessOrder (set_lru now key v ttl s) = ks @ [key]
       \<and> evictions (metrics_lru (set_lru now key v ttl s)) = evictions (metrics_lru s)
       \<and> config_lru (set_lru now key v ttl s) = config_lru s"
proof -
  have len: "length (cache s) = length ks" using assms(1) by (metis length_map)
  have nh: "\<not> Map_has (cache s) key" using assms(1,3) by (simp add: Map_has_def)
  show ?thesis
    using assms nh len unfolding set_lru_def Let_def
    by (simp add: keys_Map_set_new Set_add_def)
qed

text \<open>A new key at capacity, the least recently used key not empty: that key alone goes.\<close>

lemma set_lru_new_key_at_capacity:
  assumes "map fst (cache s) = k0 # ks" and "accessOrder s = k0 # ks" and "distinct (k0 # ks)"
    and "key \<notin> set (k0 # ks)" and "maxSize (config_lru s) \<le> int (length (k0 # ks))" and "k0 \<noteq> []"
  shows "map fst (cache (set_lru now key v ttl s)) = ks @ [key]
       \<and> accessOrder (set_lru now key v ttl s) = ks @ [key]
       \<and> evictions (metrics_lru (set_lru now key v ttl s)) = evictions (metrics_lru s) + 1
       \<and> config_lru (set_lru now key v ttl s) = config_lru s"
proof -
  let ?s1 = "s\<lparr>lock := Set_add key (lock s)\<rparr>"
  have len: "length (cache s) = length (k0 # ks)" using assms(1) by (metis length_map)
  have nh: "\<not> Map_has (cache s) key" using assms(1,4) by (simp add: Map_has_def)
  have k0: "k0 \<notin> set ks" using assms(3) by simp
  have ev: "map fst (cache (evictLRU ?s1)) = ks \<and> accessOrder (evictLRU ?s1) = ks
            \<and> evictions (metrics_lru (evictLRU ?s1)) = evictions (metrics_lru s) + 1"
    using assms(1,2,6) k0 unfolding evictLRU_def
    by (simp add: keys_Map_delete_hd Set_delete_hd)
  have knew: "key \<notin> set ks" using assms(4) by simp
  show ?thesis
    using nh len assms(5) ev knew unfolding set_lru_def Let_def
    by (simp add: keys_Map_set_new Set_add_def)
qed

text \<open>Filling a fresh cache with distinct keys up to its capacity evicts nothing.\<close>

lemma set_all_fill:
  assumes "distinct (map key_of reqs)" and "int (length reqs) \<le> maxSize c"
  shows "map fst (cache (set_all reqs (LRUCache_new c))) = map key_of reqs
       \<and> accessOrder (set_all reqs (LRUCache_new c)) = map key_of reqs
       \<and> evictions (metrics_lru (set_all reqs (LRUCache_new c))) = 0
       \<and> config_lru (set_all reqs (LRUCache_new c)) = c"
  using assms
proof (induction reqs rule: rev_induct)
  case Nil
  then show ?case by (simp add: set_all_def LRUCache_new_def)
next
  case (snoc r reqs)
  obtain now key v ttl where r: "r = (now, key, v, ttl)" by (cases r) auto
  let ?s = "set_all reqs (LRUCache_new c)"
  have ih: "map fst (cache ?s) = map key_of reqs" "accessOrder ?s = map key_of reqs"
           "evictions (metrics_lru ?s) = 0" "config_lru ?s = c"
    using snoc by simp_all
  have new: "key \<notin> set (map key_of reqs)" using snoc.prems(1) r by (simp add: key_of_def)
  have below: "int (length (map key_of reqs)) < maxSize (config_lru ?s)"
    using snoc.prems(2) ih(4) by simp
  have step: "set_all (reqs @ [r]) (LRUCache_new c) = set_lru now key v ttl ?s"
    by (simp add: set_all_def r)
  from set_lru_new_key_below_capacity [OF ih(1) ih(2) new below, of now v ttl] ih(3,4)
  show ?case unfolding step by (simp add: r key_of_def)
qed

text \<open>
  One key more than the capacity, the first key not empty: one eviction, and it is
  the first key that goes.
\<close>

lemma set_all_overflow:
  assumes "1 \<le> maxSize c" and "int (length reqs) = maxSize c + 1"
    and "distinct (map key_of reqs)" and "key_of (hd reqs) \<noteq> []"
  shows "evictions (metrics_lru (set_all reqs (LRUCache_new c))) = 1
       \<and> map fst (cache (set_all reqs (LRUCache_new c))) = tl (map key_of reqs)
       \<and> accessOrder (set_all reqs (LRUCache_new c)) = tl (map key_of reqs)"
proof -
  from assms(1,2) have "reqs \<noteq> []" by auto
  then obtain r front where reqs: "reqs = front @ [r]" by (metis rev_exhaust)
  obtain now key v ttl where r: "r = (now, key, v, ttl)" by (cases r) auto
  let ?s = "set_all front (LRUCache_new c)"
  have flen: "int (length front) = maxSize c" using assms(2) reqs by simp
  with assms(1) have "front \<noteq> []" by auto
  then obtain r0 rest where front: "front = r0 # rest" by (cases front) auto
  have d: "distinct (map key_of front)" using assms(3) reqs by simp
  from set_all_fill [OF d] flen
  have fill: "map fst (cache ?s) = map key_of front" "accessOrder ?s = map key_of front"
             "evictions (metrics_lru ?s) = 0" "config_lru ?s = c"
    by simp_all
  have c1: "map fst (cache ?s) = key_of r0 # map key_of rest" using fill(1) front by simp
  have c2: "accessOrder ?s = key_of r0 # map key_of rest" using fill(2) front by simp
  have c3: "distinct (key_of r0 # map key_of rest)" using d front by simp
  have c4: "key \<notin> set (key_of r0 # map key_of rest)"
    using assms(3) reqs r front by (auto simp: key_of_def)
  have c5: "maxSize (config_lru ?s) \<le> int (length (key_of r0 # map key_of rest))"
    using flen front fill(4) by simp
  have c6: "key_of r0 \<noteq> []" using assms(4) reqs front by simp
  have step: "set_all reqs (LRUCache_new c) = set_lru now key v ttl ?s"
    by (simp add: set_all_def reqs r)
  from set_lru_new_key_at_capacity [OF c1 c2 c3 c4 c5 c6, of now v ttl] fill(3)
  show ?thesis unfolding step by (simp add: reqs front r key_of_def)
qed

text \<open>
  Claim C3. One key more than the capacity, all keys distinct and none used again:
  exactly one eviction, of the key inserted first. The code does so when the capacity
  is at least 1 and that first key is not the empty string (\<open>set_all_overflow\<close>). With
  the empty string as the first key, \<^verbatim>\<open>evictLRU\<close> takes the key for a missing one
  and evicts nothing. Capacity 2 and the keys \<open>''\<close>, \<open>a\<close>, \<open>b\<close>: no eviction, three
  entries in the map; capacity 2 and the keys \<open>x\<close>, \<open>a\<close>, \<open>b\<close>: one eviction, \<open>x\<close> goes.
\<close>

theorem lru_empty_key_not_evicted:
  "(let s = set_all [(1, '''', 1::nat, None), (2, ''a'', 2, None), (3, ''b'', 3, None)]
              (LRUCache_new (DEFAULT_LRU_CONFIG\<lparr> maxSize := 2 \<rparr>))
    in evictions (metrics_lru s) = 0
     \<and> map fst (cache s) = ['''', ''a'', ''b'']
     \<and> int (length (cache s)) > maxSize (config_lru s))
   \<and> (let s = set_all [(1, ''x'', 1::nat, None), (2, ''a'', 2, None), (3, ''b'', 3, None)]
              (LRUCache_new (DEFAULT_LRU_CONFIG\<lparr> maxSize := 2 \<rparr>))
    in evictions (metrics_lru s) = 1
     \<and> map fst (cache s) = [''a'', ''b''])"
  by code_simp

section \<open>The caching decorator\<close>

lemma LRUCache_new_sel [simp]:
  "cache (LRUCache_new c) = []" "lock (LRUCache_new c) = []" "config_lru (LRUCache_new c) = c"
  "accessOrder (LRUCache_new c) = []"
  unfolding LRUCache_new_def by simp_all

text \<open>A lookup right after the constructor misses; a lookup after a store of the same key
  returns the stored value or, when the entry has expired, misses.\<close>

lemma get_lru_new: "get_lru now key (LRUCache_new c) = Some (None, recordMiss (LRUCache_new c))"
  by (rule get_lru_absent) (simp_all add: Map_get_def)

lemma get_lru_after_set:
  "\<exists>x s'. get_lru now' key (set_lru now key v ttl s) = Some (x, s') \<and> (x = None \<or> x = Some v)"
proof -
  let ?e = "entry_of now v ttl (defaultTTL (config_lru s))"
  have l: "key \<notin> set (lock (set_lru now key v ttl s))" by (rule set_lru_lock)
  have e: "Map_get (cache (set_lru now key v ttl s)) key = Some ?e" by (rule set_lru_entry)
  have v: "value_c ?e = v" by (simp add: entry_of_def Let_def)
  from get_lru_present [OF l e, of now'] obtain s' where
    "get_lru now' key (set_lru now key v ttl s) = Some (if isExpired now' ?e then None else Some (value_c ?e), s')"
    by (rule exE)
  with v show ?thesis by (cases "isExpired now' ?e") simp_all
qed

lemma matchArtists_cached_first:
  "\<exists>c. matchArtists_cached h t1 t2 query artists (CachedEntityMatcher_new config cacheConfig)
        = Some (matchArtists config query artists,
                \<lparr> config_cem = config,
                  cache_cem = (MatcherCache_new cacheConfig)\<lparr> artistCache := c \<rparr> \<rparr>)
      \<and> (trim query = [] \<or> artists = [] \<or>
           (\<exists>s. c = set_lru t2 (generateArtistCacheKey h query config)
                      (matchArtists config query artists) None s))"
proof (cases "trim query = [] \<or> artists = []")
  case True
  then have "matchArtists_cached h t1 t2 query artists (CachedEntityMatcher_new config cacheConfig)
        = Some (matchArtists config query artists,
                \<lparr> config_cem = config,
                  cache_cem = (MatcherCache_new cacheConfig)\<lparr> artistCache := artistCache (MatcherCache_new cacheConfig) \<rparr> \<rparr>)"
    by (auto simp: matchArtists_cached_def matchArtists_def CachedEntityMatcher_new_def)
  with True show ?thesis by blast
next
  case False
  then show ?thesis
    by (simp add: matchArtists_cached_def CachedEntityMatcher_new_def getArtistMatches_def
        setArtistMatches_def MatcherCache_new_def get_lru_new Let_def) blast
qed

lemma matchArtists_cached_second:
  assumes "trim query = [] \<or> artists = [] \<or>
           (\<exists>s. c = set_lru t2 (generateArtistCacheKey h query config)
                      (matchArtists config query artists) None s)"
  shows "\<exists>m2. matchArtists_cached h t3 t4 query artists
                 \<lparr> config_cem = config, cache_cem = mc\<lparr> artistCache := c \<rparr> \<rparr>
              = Some (matchArtists config query artists, m2)"
proof (cases "trim query = [] \<or> artists = []")
  case True
  then show ?thesis by (auto simp: matchArtists_cached_def matchArtists_def)
next
  case False
  with assms obtain s where c: "c = set_lru t2 (generateArtistCacheKey h query config)
                      (matchArtists config query artists) None s" by blast
  obtain x s' where g: "get_lru t3 (generateArtistCacheKey h query config) c = Some (x, s')"
    and x: "x = None \<or> x = Some (matchArtists config query artists)"
    unfolding c using get_lru_after_set [of t3 _ t2 _ None s] by blast
  from x show ?thesis
  proof
    assume "x = None"
    with g False show ?thesis
      by (simp add: matchArtists_cached_def getArtistMatches_def Let_def)
  next
    assume "x = Some (matchArtists config query artists)"
    with g False show ?thesis
      by (simp add: matchArtists_cached_def getArtistMatches_def Let_def)
  qed
qed

lemma matchVenues_cached_first:
  "\<exists>c. matchVenues_cached h t1 t2 query venues cityFilter (CachedEntityMatcher_new config cacheConfig)
        = Some (matchVenues config query venues cityFilter,
                \<lparr> config_cem = config,
                  cache_cem = (MatcherCache_new cacheConfig)\<lparr> venueCache := c \<rparr> \<rparr>)
      \<and> (trim query = [] \<or> venues = [] \<or>
           (\<exists>s. c = set_lru t2 (generateVenueCacheKey h query config cityFilter)
                      (matchVenues config query venues cityFilter) None s))"
proof (cases "trim query = [] \<or> venues = []")
  case True
  then have "matchVenues_cached h t1 t2 query venues cityFilter (CachedEntityMatcher_new config cacheConfig)
        = Some (matchVenues config query venues cityFilter,
                \<lparr> config_cem = config,
                  cache_cem = (MatcherCache_new cacheConfig)\<lparr> venueCache := venueCache (MatcherCache_new cacheConfig) \<rparr> \<rparr>)"
    by (auto simp: matchVenues_cached_def matchVenues_def CachedEntityMatcher_new_def)
  with True show ?thesis by blast
next
  case False
  then show ?thesis
    by (simp add: matchVenues_cached_def CachedEntityMatcher_new_def getVenueMatches_def
        setVenueMatches_def MatcherCache_new_def get_lru_new Let_def) blast
qed

lemma matchVenues_cached_second:
  assumes "trim query = [] \<or> venues = [] \<or>
           (\<exists>s. c = set_lru t2 (generateVenueCacheKey h query config cityFilter)
                      (matchVenues config query venues cityFilter) None s)"
  shows "\<exists>m2. matchVenues_cached h t3 t4 query venues cityFilter
                 \<lparr> config_cem = config, cache_cem = mc\<lparr> venueCache := c \<rparr> \<rparr>
              = Some (matchVenues config query venues cityFilter, m2)"
proof (cases "trim query = [] \<or> venues = []")
  case True
  then show ?thesis by (auto simp: matchVenues_cached_def matchVenues_def)
next
  case False
  with assms obtain s where c: "c = set_lru t2 (generateVenueCacheKey h query config cityFilter)
                      (matchVenues config query venues cityFilter) None s" by blast
  obtain x s' where g: "get_lru t3 (generateVenueCacheKey h query config cityFilter) c = Some (x, s')"
    and x: "x = None \<or> x = Some (matchVenues config query venues cityFilter)"
    unfolding c using get_lru_after_set [of t3 _ t2 _ None s] by blast
  from x show ?thesis
  proof
    assume "x = None"
    with g False show ?thesis
      by (simp add: matchVenues_cached_def getVenueMatches_def Let_def)
  next
    assume "x = Some (matchVenues config query venues cityFilter)"
    with g False show ?thesis
      by (simp add: matchVenues_cached_def getVenueMatches_def Let_def)
  qed
qed

text \<open>
  Claim C6. From a fresh \<open>CachedEntityMatcher\<close>, for every query, candidate list, city
  filter, number printer and clock readings: the first call of \<open>matchArtists\<close> returns
  the list that the plain \<open>matchArtists\<close> returns under the same configuration, and so
  does the same call repeated on the state the first one leaves; likewise for
  \<open>matchVenues\<close>. Both calls return.
\<close>

theorem cached_matcher_agrees:
  "(\<exists>m1 m2.
      matchArtists_cached numberToString t1 t2 query artists (CachedEntityMatcher_new config cacheConfig)
        = Some (matchArtists config query artists, m1)
      \<and> matchArtists_cached numberToString t3 t4 query artists m1
        = Some (matchArtists config query artists, m2))
   \<and> (\<exists>m1 m2.
      matchVenues_cached numberToString t1 t2 query venues cityFilter (CachedEntityMatcher_new config cacheConfig)
        = Some (matchVenues config query venues cityFilter, m1)
      \<and> matchVenues_cached numberToString t3 t4 query venues cityFilter m1
        = Some (matchVenues config query venues cityFilter, m2))"
proof
  obtain c where first:
    "matchArtists_cached numberToString t1 t2 query artists (CachedEntityMatcher_new config cacheConfig)
        = Some (matchArtists config query artists,
                \<lparr> config_cem = config,
                  cache_cem = (MatcherCache_new cacheConfig)\<lparr> artistCache := c \<rparr> \<rparr>)"
    and c: "trim query = [] \<or> artists = [] \<or>
           (\<exists>s. c = set_lru t2 (generateArtistCacheKey numberToString query config)
                      (matchArtists config query artists) None s)"
    using matchArtists_cached_first by blast
  from matchArtists_cached_second [OF c] first
  show "\<exists>m1 m2.
      matchArtists_cached numberToString t1 t2 query artists (CachedEntityMatcher_new config cacheConfig)
        = Some (matchArtists config query artists, m1)
      \<and> matchArtists_cached numberToString t3 t4 query artists m1
        = Some (matchArtists config query artists, m2)"
    by blast
next
  obtain c where first:
    "matchVenues_cached numberToString t1 t2 query venues cityFilter (CachedEntityMatcher_new config cacheConfig)
        = Some (matchVenues config query venues cityFilter,
                \<lparr> config_cem = config,
                  cache_cem = (MatcherCache_new cacheConfig)\<lparr> venueCache := c \<rparr> \<rparr>)"
    and c: "trim query = [] \<or> venues = [] \<or>
           (\<exists>s. c = set_lru t2 (generateVenueCacheKey numberToString query config cityFilter)
                      (matchVenues config query venues cityFilter) None s)"
    using matchVenues_cached_first by blast
  from matchVenues_cached_second [OF c] first
  show "\<exists>m1 m2.
      matchVenues_cached numberToString t1 t2 query venues cityFilter (CachedEntityMatcher_new config cacheConfig)
        = Some (matchVenues config query venues cityFilter, m1)
      \<and> matchVenues_cached numberToString t3 t4 query venues cityFilter m1
        = Some (matchVenues config query venues cityFilter, m2)"
    by blast
qed

text \<open>
  The default configuration, with its six numbers printed as JavaScript prints
  them: the repeated call is answered from the cache, one miss and one hit are
  counted.
\<close>

theorem cached_matcher_agrees_witness:
  "(\<exists>m1 m2.
      matchArtists_cached printNumber 0 1 ''Beatles''
          [\<lparr> id_e = ''1'', name_e = ''The Beatles'', aliases = Some [''Beatles'', ''Fab Four''] \<rparr>]
          (CachedEntityMatcher_new DEFAULT_MATCH_CONFIG DEFAULT_MATCHER_CACHE_CONFIG)
        = Some (matchArtists DEFAULT_MATCH_CONFIG ''Beatles''
                 [\<lparr> id_e = ''1'', name_e = ''The Beatles'', aliases = Some [''Beatles'', ''Fab Four''] \<rparr>], m1)
      \<and> matchArtists_cached printNumber 2 3 ''Beatles''
          [\<lparr> id_e = ''1'', name_e = ''The Beatles'', aliases = Some [''Beatles'', ''Fab Four''] \<rparr>] m1
        = Some (matchArtists DEFAULT_MATCH_CONFIG ''Beatles''
                 [\<lparr> id_e = ''1'', name_e = ''The Beatles'', aliases = Some [''Beatles'', ''Fab Four''] \<rparr>], m2))
   \<and> (case matchArtists_cached printNumber 0 1 ''Beatles''
          [\<lparr> id_e = ''1'', name_e = ''The Beatles'', aliases = Some [''Beatles'', ''Fab Four''] \<rparr>]
          (CachedEntityMatcher_new DEFAULT_MATCH_CONFIG DEFAULT_MATCHER_CACHE_CONFIG) of
         None \<Rightarrow> False
       | Some (r1, m1) \<Rightarrow>
           (case matchArtists_cached printNumber 2 3 ''Beatles''
              [\<lparr> id_e = ''1'', name_e = ''The Beatles'', aliases = Some [''Beatles'', ''Fab Four''] \<rparr>] m1 of
              None \<Rightarrow> False
            | Some (r2, m2) \<Rightarrow>
                r2 = r1 \<and> map confidence r1 = [Finite 100]
                \<and> hits (metrics_lru (artistCache (cache_cem m2))) = 1
                \<and> misses (metrics_lru (artistCache (cache_cem m2))) = 1))"
proof -
  have run: "(case matchArtists_cached printNumber 0 1 ''Beatles''
          [\<lparr> id_e = ''1'', name_e = ''The Beatles'', aliases = Some [''Beatles'', ''Fab Four''] \<rparr>]
          (CachedEntityMatcher_new DEFAULT_MATCH_CONFIG DEFAULT_MATCHER_CACHE_CONFIG) of
         None \<Rightarrow> False
       | Some (r1, m1) \<Rightarrow>
           (case matchArtists_cached printNumber 2 3 ''Beatles''
              [\<lparr> id_e = ''1'', name_e = ''The Beatles'', aliases = Some [''Beatles'', ''Fab Four''] \<rparr>] m1 of
              None \<Rightarrow> False
            | Some (r2, m2) \<Rightarrow>
                r2 = r1 \<and> map confidence r1 = [Finite 100]
                \<and> hits (metrics_lru (artistCache (cache_cem m2))) = 1
                \<and> misses (metrics_lru (artistCache (cache_cem m2))) = 1))"
    by code_simp
  from cached_matcher_agrees [of printNumber 0 1 "''Beatles''"
      "[\<lparr> id_e = ''1'', name_e = ''The Beatles'', aliases = Some [''Beatles'', ''Fab Four''] \<rparr>]"
      DEFAULT_MATCH_CONFIG DEFAULT_MATCHER_CACHE_CONFIG 2 3] run
  show ?thesis by blast
qed

end
